theory Spec2Isabelle
  imports Complex_Main "HOL-Library.Multiset"
begin

section \<open>Time\<close>

text \<open>
  A Python \<^verbatim>\<open>datetime\<close> (always timezone-aware UTC in this program) is modelled as the
  number of microseconds since the epoch, a \<^verbatim>\<open>timedelta\<close> as a number of microseconds;
  both have microsecond resolution in Python. \<^verbatim>\<open>timedelta.total_seconds()\<close> divides the
  microsecond count by \<open>10^6\<close>; the model keeps the exact quotient as a rational
  (Python rounds it to a float, which is monotone and exact at 7200, so every comparison
  with 7200 made by the program has the same outcome).
\<close>

type_synonym datetime = int
type_synonym timedelta = int

definition total_seconds :: "timedelta \<Rightarrow> rat" where
  "total_seconds d = of_int d / 1000000"

definition timedelta_minutes :: "int \<Rightarrow> timedelta" where
  "timedelta_minutes m = m * 60000000"

section \<open>Formation\<close>

record Formation =
  gk :: int
  def' :: int
  mid :: int
  fwd :: int

definition is_legal :: "Formation \<Rightarrow> bool" where
  "is_legal f =
     (let total_players = gk f + def' f + mid f + fwd f in
        total_players = 11 \<and>
        gk f = 1 \<and>
        (3 \<le> def' f \<and> def' f \<le> 5) \<and>
        (2 \<le> mid f \<and> mid f \<le> 5) \<and>
        (1 \<le> fwd f \<and> fwd f \<le> 3))"

section \<open>PlayerStatus\<close>

record PlayerStatus =
  is_starting :: "bool option"
  is_benched :: "bool option"
  game_time :: "datetime option"
  is_locked :: bool
  opponent :: "string option"

definition is_confirmed_not_starting :: "PlayerStatus \<Rightarrow> bool" where
  "is_confirmed_not_starting s =
     ((is_starting s \<noteq> None \<and> \<not> the (is_starting s)) \<or>
      (is_benched s \<noteq> None \<and> the (is_benched s)))"

text \<open>A \<^verbatim>\<open>datetime\<close> is always truthy, so \<^verbatim>\<open>not self.game_time\<close> is: no game time is set.\<close>

definition is_game_soon :: "PlayerStatus \<Rightarrow> datetime \<Rightarrow> bool" where
  "is_game_soon s current_time =
     (case game_time s of
        None \<Rightarrow> False
      | Some gt \<Rightarrow>
          (let time_until_game = gt - current_time
           in total_seconds time_until_game \<le> 7200))"

section \<open>Errors\<close>

text \<open>
  Python exceptions are values. \<open>FetchError\<close> stands for whatever the HTTP session or the
  JSON decoder raises inside \<^verbatim>\<open>fetch_player_page\<close>.
\<close>

datatype error =
    KeyError string
  | IndexError
  | ValueError
  | AttributeError string
  | FetchError

section \<open>Roster rows (external data consumed by the optimizer)\<close>

text \<open>
  A roster row of the external API exposes \<^verbatim>\<open>row.pos.short_name\<close> and \<^verbatim>\<open>row.player\<close>
  (possibly \<^verbatim>\<open>None\<close>) with \<^verbatim>\<open>player.id\<close> and \<^verbatim>\<open>player.name\<close>. Rows and players are
  plain objects and therefore truthy whenever they are not \<^verbatim>\<open>None\<close>.
\<close>

record Player =
  id' :: string
  name :: string

record Position =
  short_name :: string

record RosterRow =
  pos :: Position
  player :: "Player option"

record Roster =
  get_starters :: "RosterRow list"
  get_bench_players :: "RosterRow list"

section \<open>String helpers\<close>

text \<open>\<^verbatim>\<open>str(n)\<close> for an integer, as used by the f-string of \<^verbatim>\<open>Formation.__str__\<close>.\<close>

definition digit_char :: "nat \<Rightarrow> char" where
  "digit_char d = ''0123456789'' ! (d mod 10)"

function str_nat :: "nat \<Rightarrow> string" where
  "str_nat n = (if n < 10 then [digit_char n] else str_nat (n div 10) @ [digit_char (n mod 10)])"
  by pat_completeness auto
termination
  by (relation "measure (\<lambda>n. n)") auto

definition str_int :: "int \<Rightarrow> string" where
  "str_int i = (if i < 0 then CHR ''-'' # str_nat (nat (- i)) else str_nat (nat i))"

text \<open>An \<^verbatim>\<open>Optional[str]\<close> inside an f-string: \<^verbatim>\<open>None\<close> prints as \<^verbatim>\<open>None\<close>.\<close>

definition str_opt :: "string option \<Rightarrow> string" where
  "str_opt v = (case v of None \<Rightarrow> ''None'' | Some s \<Rightarrow> s)"

definition str_Formation :: "Formation \<Rightarrow> string" where
  "str_Formation f =
     str_int (gk f) @ ''-'' @ str_int (def' f) @ ''-'' @ str_int (mid f) @ ''-'' @ str_int (fwd f)"

text \<open>
  \<^verbatim>\<open>s.split(sep)\<close> for a non-empty separator: the text is cut at the leftmost,
  non-overlapping occurrences of \<open>sep\<close>. \<open>acc\<close> holds the current piece, reversed.
\<close>

fun split_sep :: "string \<Rightarrow> string \<Rightarrow> string \<Rightarrow> string list" where
  "split_sep sep acc [] = [rev acc]"
| "split_sep sep acc (c # cs) =
     (if take (length sep) (c # cs) = sep
      then rev acc # split_sep sep [] (drop (length sep - 1) cs)
      else split_sep sep (c # acc) cs)"

definition str_split :: "string \<Rightarrow> string \<Rightarrow> string list" where
  "str_split s sep = split_sep sep [] s"

section \<open>LineupOptimizer: state\<close>

text \<open>
  The fields of \<^verbatim>\<open>self\<close> that the modelled methods read or write. The identifiers of the
  league and the team and the HTTP session are not state of the decision logic; the
  session's answers enter \<^verbatim>\<open>update_player_statuses\<close> as a parameter.
\<close>

record LineupOptimizer =
  player_statuses :: "string \<rightharpoonup> PlayerStatus"
  last_check_time :: "datetime option"

definition get_player_status :: "LineupOptimizer \<Rightarrow> string \<Rightarrow> PlayerStatus option" where
  "get_player_status self player_id = player_statuses self player_id"

section \<open>update\_player\_statuses\<close>

text \<open>
  The JSON answer of the feed, typed as the program reads it: a field that may be missing
  is an option (\<open>None\<close>: the key is absent).
\<close>

type_synonym player_json = "string \<rightharpoonup> string"

record paginated_json =
  totalNumResults :: "int option"
  totalNumPages :: "int option"
  maxResultsPerPage :: "int option"

record page_json =
  paginatedResultSet :: "paginated_json option"
  statsTable :: "player_json list option"

record response_entry =
  data :: "page_json option"

record response_json =
  responses :: "response_entry list option"

text \<open>What the remote end answers for each page number (or the error the request raises).\<close>

type_synonym session = "int \<Rightarrow> error + response_json"

definition fetch_player_page :: "session \<Rightarrow> int \<Rightarrow> error + response_json" where
  "fetch_player_page session page = session page"

text \<open>The expression \<^verbatim>\<open>data["responses"][0]["data"]\<close>.\<close>

definition responses_0_data :: "response_json \<Rightarrow> error + page_json" where
  "responses_0_data d =
     (case responses d of
        None \<Rightarrow> Inl (KeyError ''responses'')
      | Some [] \<Rightarrow> Inl IndexError
      | Some (r # _) \<Rightarrow>
          (case data r of None \<Rightarrow> Inl (KeyError ''data'') | Some pd \<Rightarrow> Inr pd))"

text \<open>The \<^verbatim>\<open>while current_page <= total_pages\<close> loop that accumulates \<^verbatim>\<open>all_players\<close>.\<close>

function fetch_pages ::
  "session \<Rightarrow> response_json \<Rightarrow> int \<Rightarrow> int \<Rightarrow> player_json list \<Rightarrow> error + player_json list"
where
  "fetch_pages session d total_pages current_page all_players =
     (if current_page \<le> total_pages then
        (case (if current_page > 1 then fetch_player_page session current_page else Inr d) of
           Inl e \<Rightarrow> Inl e
         | Inr d' \<Rightarrow>
             (case responses_0_data d' of
                Inl e \<Rightarrow> Inl e
              | Inr pd \<Rightarrow>
                  (case statsTable pd of
                     Some stats_table \<Rightarrow>
                       fetch_pages session d' total_pages (current_page + 1)
                         (all_players @ stats_table)
                   | None \<Rightarrow>
                       fetch_pages session d' total_pages (current_page + 1) all_players)))
      else Inr all_players)"
  by pat_completeness auto
termination
  by (relation "measure (\<lambda>(session, d, total_pages, current_page, all_players).
        nat (total_pages + 1 - current_page))") auto

text \<open>
  \<open>strptime now time_str\<close> stands for the library call
  \<^verbatim>\<open>datetime.strptime(f"{now.date()} {time_str}", "%Y-%m-%d %I:%M%p").replace(tzinfo=utc)\<close>;
  \<open>None\<close> is the \<^verbatim>\<open>ValueError\<close> that the program catches. It is a parameter of the model.
\<close>

type_synonym strptime = "datetime \<Rightarrow> string \<Rightarrow> datetime option"

text \<open>The body of \<^verbatim>\<open>for player in all_players\<close>: one record, one write to the map.\<close>

definition process_player ::
  "strptime \<Rightarrow> datetime \<Rightarrow> player_json \<Rightarrow> (string \<rightharpoonup> PlayerStatus) \<Rightarrow>
     error + (string \<rightharpoonup> PlayerStatus)"
where
  "process_player strptime now p statuses =
     (case p ''scorerId'' of
        None \<Rightarrow> Inl (KeyError ''scorerId'')
      | Some player_id \<Rightarrow>
          (let (opp, gt) =
                 (case p ''opponent'' of
                    None \<Rightarrow> (None, None)
                  | Some o_str \<Rightarrow>
                      (let opp_info = str_split o_str ''<br/>'' in
                         if length opp_info = 2
                         then (Some (opp_info ! 0), strptime now (opp_info ! 1))
                         else (None, None)));
               locked =
                 (case gt of
                    None \<Rightarrow> False
                  | Some g \<Rightarrow> now \<ge> g - timedelta_minutes 1);
               misc_type = p ''miscDisplayType'';
               (starting, benched) =
                 (if misc_type = Some ''10'' then (Some True, Some False)
                  else if misc_type = Some ''11'' then (Some False, Some True)
                  else (None, None))
           in Inr (statuses(player_id \<mapsto>
                \<lparr>is_starting = starting, is_benched = benched, game_time = gt,
                 is_locked = locked, opponent = opp\<rparr>))))"

text \<open>
  The loop over \<^verbatim>\<open>all_players\<close>. An exception leaves the map as the records before it
  wrote it, so the map is returned beside the outcome.
\<close>

fun process_players ::
  "strptime \<Rightarrow> datetime \<Rightarrow> player_json list \<Rightarrow> (string \<rightharpoonup> PlayerStatus) \<Rightarrow>
     (error + unit) \<times> (string \<rightharpoonup> PlayerStatus)"
where
  "process_players strptime now [] statuses = (Inr (), statuses)"
| "process_players strptime now (p # ps) statuses =
     (case process_player strptime now p statuses of
        Inl e \<Rightarrow> (Inl e, statuses)
      | Inr statuses' \<Rightarrow> process_players strptime now ps statuses')"

text \<open>
  The fetching part of the \<^verbatim>\<open>try\<close> block: the first page, its pagination descriptor
  (\<^verbatim>\<open>.get("paginatedResultSet", {})\<close>, \<^verbatim>\<open>.get("totalNumPages", 0)\<close>) and the loop over
  the pages. Nothing is written to the map here.
\<close>

definition fetch_all_players :: "session \<Rightarrow> error + player_json list" where
  "fetch_all_players session =
     (case fetch_player_page session 1 of
        Inl e \<Rightarrow> Inl e
      | Inr d \<Rightarrow>
          (case responses_0_data d of
             Inl e \<Rightarrow> Inl e
           | Inr pd \<Rightarrow>
               (let total_pages =
                      (case paginatedResultSet pd of
                         None \<Rightarrow> 0
                       | Some paginated_info \<Rightarrow>
                           (case totalNumPages paginated_info of None \<Rightarrow> 0 | Some n \<Rightarrow> n))
                in fetch_pages session d total_pages 1 [])))"

text \<open>
  The body of the \<^verbatim>\<open>try\<close> block: the outcome (an exception or normal completion) and the
  state of \<^verbatim>\<open>self\<close> at that point. \<open>now\<close> is what \<^verbatim>\<open>datetime.now(timezone.utc)\<close> returns.
  The time stamp is stored and the map is cleared before the first page is requested. The
  final count of starting players is only logged.
\<close>

definition update_try ::
  "session \<Rightarrow> strptime \<Rightarrow> datetime \<Rightarrow> LineupOptimizer \<Rightarrow> (error + unit) \<times> LineupOptimizer"
where
  "update_try session strptime now self =
     (let self1 = self\<lparr>last_check_time := Some now\<rparr>;
          self2 = self1\<lparr>player_statuses := Map.empty\<rparr>
      in case fetch_all_players session of
           Inl e \<Rightarrow> (Inl e, self2)
         | Inr all_players \<Rightarrow>
             (case process_players strptime now all_players (player_statuses self2) of
                (r, statuses) \<Rightarrow> (r, self2\<lparr>player_statuses := statuses\<rparr>)))"

text \<open>
  \<^verbatim>\<open>update_player_statuses\<close>: the \<^verbatim>\<open>except Exception\<close> clause logs the error and the
  method returns; what remains is the state the \<^verbatim>\<open>try\<close> block left.
\<close>

definition update_player_statuses ::
  "session \<Rightarrow> strptime \<Rightarrow> datetime \<Rightarrow> LineupOptimizer \<Rightarrow> LineupOptimizer"
where
  "update_player_statuses session strptime now self = snd (update_try session strptime now self)"

section \<open>Formation of a roster\<close>

definition count_position :: "RosterRow \<Rightarrow> Formation \<Rightarrow> Formation" where
  "count_position row f =
     (let p = short_name (pos row) in
        if p = ''G'' then f\<lparr>gk := gk f + 1\<rparr>
        else if p = ''D'' then f\<lparr>def' := def' f + 1\<rparr>
        else if p = ''M'' then f\<lparr>mid := mid f + 1\<rparr>
        else if p = ''F'' then f\<lparr>fwd := fwd f + 1\<rparr>
        else f)"

definition get_current_formation :: "Roster \<Rightarrow> Formation" where
  "get_current_formation roster =
     fold count_position (get_starters roster) \<lparr>gk = 0, def' = 0, mid = 0, fwd = 0\<rparr>"

section \<open>can\_swap\_players\<close>

text \<open>The two \<^verbatim>\<open>if/elif\<close> chains that move one count down and one count up.\<close>

definition formation_minus :: "string \<Rightarrow> Formation \<Rightarrow> Formation" where
  "formation_minus p f =
     (if p = ''G'' then f\<lparr>gk := gk f - 1\<rparr>
      else if p = ''D'' then f\<lparr>def' := def' f - 1\<rparr>
      else if p = ''M'' then f\<lparr>mid := mid f - 1\<rparr>
      else if p = ''F'' then f\<lparr>fwd := fwd f - 1\<rparr>
      else f)"

definition formation_plus :: "string \<Rightarrow> Formation \<Rightarrow> Formation" where
  "formation_plus p f =
     (if p = ''G'' then f\<lparr>gk := gk f + 1\<rparr>
      else if p = ''D'' then f\<lparr>def' := def' f + 1\<rparr>
      else if p = ''M'' then f\<lparr>mid := mid f + 1\<rparr>
      else if p = ''F'' then f\<lparr>fwd := fwd f + 1\<rparr>
      else f)"

text \<open>
  The result is the pair \<^verbatim>\<open>(can_swap, reason)\<close>; reading \<^verbatim>\<open>.id\<close> of a missing player is
  the \<^verbatim>\<open>AttributeError\<close> Python raises. A \<^verbatim>\<open>PlayerStatus\<close> is truthy whenever it is not
  \<^verbatim>\<open>None\<close>, so \<^verbatim>\<open>status and status.is_locked\<close> is: an entry exists and it is locked.
\<close>

definition can_swap_players ::
  "LineupOptimizer \<Rightarrow> RosterRow \<Rightarrow> RosterRow \<Rightarrow> Formation \<Rightarrow> error + (bool \<times> string)"
where
  "can_swap_players self starter bench current_formation =
     (case player starter of
        None \<Rightarrow> Inl (AttributeError ''id'')
      | Some sp \<Rightarrow>
          (let starter_status = get_player_status self (id' sp) in
             if (case starter_status of None \<Rightarrow> False | Some st \<Rightarrow> is_locked st)
             then Inr (False, ''Cannot move '' @ name sp @
                         '' to bench - player is locked (game in progress)'')
             else
               (case player bench of
                  None \<Rightarrow> Inl (AttributeError ''id'')
                | Some bp \<Rightarrow>
                    (let bench_status = get_player_status self (id' bp) in
                       if (case bench_status of None \<Rightarrow> False | Some st \<Rightarrow> is_locked st)
                       then Inr (False, ''Cannot move '' @ name bp @
                              '' to starting lineup - player is locked (game in progress)'')
                       else
                         (let new_formation =
                                \<lparr>gk = gk current_formation, def' = def' current_formation,
                                 mid = mid current_formation, fwd = fwd current_formation\<rparr>;
                              new_formation = formation_minus (short_name (pos starter)) new_formation;
                              new_formation = formation_plus (short_name (pos bench)) new_formation
                          in if \<not> is_legal new_formation
                             then Inr (False, ''Invalid formation after swap: '' @
                                    str_Formation new_formation @
                                    '' (must have exactly 11 players with valid position counts)'')
                             else Inr (True, ''Swap is valid''))))))"

section \<open>find\_optimal\_swaps\<close>

text \<open>A swap proposal: \<^verbatim>\<open>(starter, bench, reason)\<close>.\<close>

type_synonym swap = "RosterRow \<times> RosterRow \<times> string"

definition swap_starter :: "swap \<Rightarrow> RosterRow" where
  "swap_starter s = fst s"

definition swap_bench :: "swap \<Rightarrow> RosterRow" where
  "swap_bench s = fst (snd s)"

text \<open>The two collecting loops: rows without a player are skipped.\<close>

fun collect_players ::
  "LineupOptimizer \<Rightarrow> RosterRow list \<Rightarrow> (RosterRow \<times> PlayerStatus option) list"
where
  "collect_players self [] = []"
| "collect_players self (row # rows) =
     (case player row of
        None \<Rightarrow> collect_players self rows
      | Some p \<Rightarrow> (row, get_player_status self (id' p)) # collect_players self rows)"

text \<open>
  \<^verbatim>\<open>bench_players.remove((best_bench, self.get_player_status(best_bench.player.id)))\<close>:
  the first equal entry is removed, \<^verbatim>\<open>ValueError\<close> when there is none. Rows are compared
  as values here and as objects in Python; where two entries have equal values, removing
  either one leaves the same list of values.
\<close>

definition remove_bench ::
  "LineupOptimizer \<Rightarrow> RosterRow \<Rightarrow> (RosterRow \<times> PlayerStatus option) list \<Rightarrow>
     error + (RosterRow \<times> PlayerStatus option) list"
where
  "remove_bench self best_bench bench_players =
     (case player best_bench of
        None \<Rightarrow> Inl (AttributeError ''id'')
      | Some p \<Rightarrow>
          (let x = (best_bench, get_player_status self (id' p)) in
             if x \<in> set bench_players then Inr (remove1 x bench_players) else Inl ValueError))"

text \<open>
  Priority 1, the inner loop over the bench. \<open>best\<close> holds \<^verbatim>\<open>best_bench\<close> and
  \<^verbatim>\<open>best_reason\<close>, which the program always assigns together; \<open>latest\<close> is
  \<^verbatim>\<open>latest_game_time\<close>. A \<^verbatim>\<open>datetime\<close> is always truthy, so \<^verbatim>\<open>not latest_game_time\<close>
  is \<open>latest = None\<close>.
\<close>

fun pass1_search ::
  "LineupOptimizer \<Rightarrow> datetime \<Rightarrow> Formation \<Rightarrow> RosterRow \<Rightarrow> PlayerStatus \<Rightarrow>
     (RosterRow \<times> PlayerStatus option) list \<Rightarrow>
     (RosterRow \<times> string) option \<Rightarrow> datetime option \<Rightarrow>
     error + (RosterRow \<times> string) option"
where
  "pass1_search self current_time cf starter starter_status [] best latest = Inr best"
| "pass1_search self current_time cf starter starter_status ((bench, bench_status) # rest)
       best latest =
     (case bench_status of
        None \<Rightarrow> pass1_search self current_time cf starter starter_status rest best latest
      | Some bs \<Rightarrow>
          (case game_time bs of
             None \<Rightarrow> pass1_search self current_time cf starter starter_status rest best latest
           | Some bench_time \<Rightarrow>
               if is_game_soon bs current_time
               then pass1_search self current_time cf starter starter_status rest best latest
               else
                 (case can_swap_players self starter bench cf of
                    Inl e \<Rightarrow> Inl e
                  | Inr (can_swap, reason) \<Rightarrow>
                      if can_swap \<and>
                         (case latest of None \<Rightarrow> True | Some l \<Rightarrow> bench_time > l)
                      then
                        if short_name (pos starter) = short_name (pos bench)
                        then pass1_search self current_time cf starter starter_status rest
                               (Some (bench,
                                  ''Direct position match - replacing confirmed non-starter ('' @
                                  str_opt (opponent starter_status) @
                                  '') with player from later game ('' @
                                  str_opt (opponent bs) @ '')''))
                               (Some bench_time)
                        else if best = None
                        then pass1_search self current_time cf starter starter_status rest
                               (Some (bench,
                                  ''Position flexible swap - replacing confirmed non-starter ('' @
                                  str_opt (opponent starter_status) @
                                  '') with player from later game ('' @
                                  str_opt (opponent bs) @ '')''))
                               (Some bench_time)
                        else pass1_search self current_time cf starter starter_status rest
                               best latest
                      else pass1_search self current_time cf starter starter_status rest
                             best latest)))"

text \<open>Priority 1, the loop over the starters: \<open>swaps\<close> grows, \<open>bench_players\<close> shrinks.\<close>

fun pass1 ::
  "LineupOptimizer \<Rightarrow> datetime \<Rightarrow> Formation \<Rightarrow> (RosterRow \<times> PlayerStatus option) list \<Rightarrow>
     swap list \<Rightarrow> (RosterRow \<times> PlayerStatus option) list \<Rightarrow>
     error + (swap list \<times> (RosterRow \<times> PlayerStatus option) list)"
where
  "pass1 self current_time cf [] swaps bench_players = Inr (swaps, bench_players)"
| "pass1 self current_time cf ((starter, starter_status) # rest) swaps bench_players =
     (case starter_status of
        None \<Rightarrow> pass1 self current_time cf rest swaps bench_players
      | Some ss \<Rightarrow>
          if is_game_soon ss current_time \<and> is_confirmed_not_starting ss
          then
            (case pass1_search self current_time cf starter ss bench_players None None of
               Inl e \<Rightarrow> Inl e
             | Inr None \<Rightarrow> pass1 self current_time cf rest swaps bench_players
             | Inr (Some (best_bench, best_reason)) \<Rightarrow>
                 (case remove_bench self best_bench bench_players of
                    Inl e \<Rightarrow> Inl e
                  | Inr bench_players' \<Rightarrow>
                      pass1 self current_time cf rest
                        (swaps @ [(starter, best_bench, best_reason)]) bench_players'))
          else pass1 self current_time cf rest swaps bench_players)"

text \<open>
  Priority 2, the inner loop over the bench; a same-position candidate ends the loop
  (\<^verbatim>\<open>break\<close>). \<^verbatim>\<open>bench_status.is_starting\<close> is truthy only when it is \<^verbatim>\<open>True\<close>.
\<close>

fun pass2_search ::
  "LineupOptimizer \<Rightarrow> Formation \<Rightarrow> RosterRow \<Rightarrow>
     (RosterRow \<times> PlayerStatus option) list \<Rightarrow>
     (RosterRow \<times> string) option \<Rightarrow>
     error + (RosterRow \<times> string) option"
where
  "pass2_search self cf starter [] best = Inr best"
| "pass2_search self cf starter ((bench, bench_status) # rest) best =
     (case bench_status of
        None \<Rightarrow> pass2_search self cf starter rest best
      | Some bs \<Rightarrow>
          if is_starting bs = Some True
          then
            (case can_swap_players self starter bench cf of
               Inl e \<Rightarrow> Inl e
             | Inr (can_swap, reason) \<Rightarrow>
                 if can_swap
                 then
                   if short_name (pos starter) = short_name (pos bench)
                   then Inr (Some (bench,
                          ''Direct position match - replacing non-starter with confirmed starter''))
                   else if best = None
                   then pass2_search self cf starter rest
                          (Some (bench,
                             ''Position flexible swap - replacing non-starter with confirmed starter''))
                   else pass2_search self cf starter rest best
                 else pass2_search self cf starter rest best)
          else pass2_search self cf starter rest best)"

fun pass2 ::
  "LineupOptimizer \<Rightarrow> Formation \<Rightarrow> (RosterRow \<times> PlayerStatus option) list \<Rightarrow>
     swap list \<Rightarrow> (RosterRow \<times> PlayerStatus option) list \<Rightarrow>
     error + (swap list \<times> (RosterRow \<times> PlayerStatus option) list)"
where
  "pass2 self cf [] swaps bench_players = Inr (swaps, bench_players)"
| "pass2 self cf ((starter, starter_status) # rest) swaps bench_players =
     (case starter_status of
        None \<Rightarrow> pass2 self cf rest swaps bench_players
      | Some ss \<Rightarrow>
          if is_confirmed_not_starting ss
          then
            (case pass2_search self cf starter bench_players None of
               Inl e \<Rightarrow> Inl e
             | Inr None \<Rightarrow> pass2 self cf rest swaps bench_players
             | Inr (Some (best_bench, best_reason)) \<Rightarrow>
                 (case remove_bench self best_bench bench_players of
                    Inl e \<Rightarrow> Inl e
                  | Inr bench_players' \<Rightarrow>
                      pass2 self cf rest
                        (swaps @ [(starter, best_bench, best_reason)]) bench_players'))
          else pass2 self cf rest swaps bench_players)"

text \<open>
  \<^verbatim>\<open>find_optimal_swaps\<close>; \<open>current_time\<close> is what \<^verbatim>\<open>datetime.now(timezone.utc)\<close> returns.
  The formation is computed once, before both passes.
\<close>

definition find_optimal_swaps ::
  "LineupOptimizer \<Rightarrow> datetime \<Rightarrow> Roster \<Rightarrow> error + swap list"
where
  "find_optimal_swaps self current_time roster =
     (let current_formation = get_current_formation roster;
          starter_players = collect_players self (get_starters roster);
          bench_players = collect_players self (get_bench_players roster)
      in case pass1 self current_time current_formation starter_players [] bench_players of
           Inl e \<Rightarrow> Inl e
         | Inr (swaps, bench_players') \<Rightarrow>
             (case pass2 self current_formation starter_players swaps bench_players' of
                Inl e \<Rightarrow> Inl e
              | Inr (swaps', bench_players'') \<Rightarrow> Inr swaps'))"

section \<open>Agreement of two optimizer states on a roster row\<close>

text \<open>Both states hold the same status entry (or none) for the row's player.\<close>

definition same_status :: "LineupOptimizer \<Rightarrow> LineupOptimizer \<Rightarrow> RosterRow \<Rightarrow> bool" where
  "same_status s1 s2 row =
     (case player row of
        None \<Rightarrow> True
      | Some p \<Rightarrow> get_player_status s1 (id' p) = get_player_status s2 (id' p))"

section \<open>Concrete rosters and status maps\<close>

text \<open>
  A roster in formation 1-4-4-2 with three bench players: a midfielder \<open>x\<close> and two
  defenders \<open>s\<close> and \<open>c\<close>. Times are microseconds; the current time of the examples is 0.
\<close>

definition sample_row :: "string \<Rightarrow> string \<Rightarrow> RosterRow" where
  "sample_row p n = \<lparr>pos = \<lparr>short_name = p\<rparr>, player = Some \<lparr>id' = n, name = n\<rparr>\<rparr>"

definition sample_roster :: Roster where
  "sample_roster =
     \<lparr>get_starters =
        [sample_row ''G'' ''g1'',
         sample_row ''D'' ''d1'', sample_row ''D'' ''d2'', sample_row ''D'' ''d3'',
         sample_row ''D'' ''d4'',
         sample_row ''M'' ''m1'', sample_row ''M'' ''m2'', sample_row ''M'' ''m3'',
         sample_row ''M'' ''m4'',
         sample_row ''F'' ''f1'', sample_row ''F'' ''f2''],
      get_bench_players = [sample_row ''M'' ''x'', sample_row ''D'' ''s'', sample_row ''D'' ''c'']\<rparr>"

definition hours :: "int \<Rightarrow> datetime" where
  "hours h = h * 3600000000"

text \<open>Starter \<open>d1\<close>: reported on the bench of his club, kick-off in one hour, not locked.\<close>

definition status_d1 :: PlayerStatus where
  "status_d1 = \<lparr>is_starting = Some False, is_benched = Some True, game_time = Some (hours 1),
                 is_locked = False, opponent = Some ''vs MUN''\<rparr>"

text \<open>A bench player whose line-up is not out yet, kick-off at the given time.\<close>

definition status_later :: "datetime \<Rightarrow> string \<Rightarrow> PlayerStatus" where
  "status_later t opp = \<lparr>is_starting = None, is_benched = None, game_time = Some t,
                          is_locked = False, opponent = Some opp\<rparr>"

text \<open>A bench player confirmed starting whose kick-off time could not be read.\<close>

definition status_confirmed :: PlayerStatus where
  "status_confirmed = \<lparr>is_starting = Some True, is_benched = Some False, game_time = None,
                        is_locked = False, opponent = None\<rparr>"

definition self_two_passes :: LineupOptimizer where
  "self_two_passes =
     \<lparr>player_statuses =
        [''d1'' \<mapsto> status_d1, ''s'' \<mapsto> status_later (hours 8) ''vs LIV'',
         ''c'' \<mapsto> status_confirmed],
      last_check_time = Some 0\<rparr>"

definition self_cross_first :: LineupOptimizer where
  "self_cross_first =
     \<lparr>player_statuses =
        [''d1'' \<mapsto> status_d1, ''x'' \<mapsto> status_later (hours 10) ''vs ARS'',
         ''s'' \<mapsto> status_later (hours 8) ''vs LIV''],
      last_check_time = Some 0\<rparr>"

definition self_locked :: LineupOptimizer where
  "self_locked =
     \<lparr>player_statuses = [''d1'' \<mapsto> status_d1\<lparr>is_locked := True\<rparr>],
      last_check_time = Some 0\<rparr>"

definition self_empty :: LineupOptimizer where
  "self_empty = \<lparr>player_statuses = Map.empty, last_check_time = None\<rparr>"

text \<open>
  The state of a later cycle: another time stamp and an entry for a player who is not on
  the roster; the entries of the roster's players are those of \<open>self_two_passes\<close>.
\<close>

definition self_two_passes_later :: LineupOptimizer where
  "self_two_passes_later =
     \<lparr>player_statuses = (player_statuses self_two_passes)(''zz'' \<mapsto> status_confirmed),
      last_check_time = Some (hours 1)\<rparr>"

section \<open>Concrete feeds\<close>

text \<open>A time parser that reads the one kick-off time of the examples.\<close>

definition sample_strptime :: strptime where
  "sample_strptime now time_str = (if time_str = ''4:00PM'' then Some (hours 16) else None)"

definition record_ok :: player_json where
  "record_ok = [''scorerId'' \<mapsto> ''p1'', ''opponent'' \<mapsto> ''vs MUN<br/>4:00PM'',
                ''miscDisplayType'' \<mapsto> ''10'']"

definition record_no_id :: player_json where
  "record_no_id = [''opponent'' \<mapsto> ''vs LIV<br/>4:00PM'', ''miscDisplayType'' \<mapsto> ''11'']"

definition record_bad_opponent :: player_json where
  "record_bad_opponent = [''scorerId'' \<mapsto> ''p2'', ''opponent'' \<mapsto> ''TBD'',
                          ''miscDisplayType'' \<mapsto> ''11'']"

definition record_plain :: player_json where
  "record_plain = [''scorerId'' \<mapsto> ''p3'', ''miscDisplayType'' \<mapsto> ''12'']"

text \<open>A feed that is down, and a feed with a single page holding the given records.\<close>

definition session_down :: session where
  "session_down page = Inl FetchError"

definition one_page :: "player_json list \<Rightarrow> session" where
  "one_page recs page =
     (if page = 1
      then Inr \<lparr>responses = Some [\<lparr>data = Some
             \<lparr>paginatedResultSet = Some \<lparr>totalNumResults = Some (int (length recs)),
                                         totalNumPages = Some 1,
                                         maxResultsPerPage = Some 100\<rparr>,
              statsTable = Some recs\<rparr>\<rparr>]\<rparr>
      else Inl FetchError)"

text \<open>The state before a refresh: one entry from the previous cycle.\<close>

definition self_prior :: LineupOptimizer where
  "self_prior = \<lparr>player_statuses = [''old'' \<mapsto> status_confirmed], last_check_time = None\<rparr>"

section \<open>Formation and PlayerStatus\<close>

lemmas sample_defs =
  sample_roster_def sample_row_def hours_def status_d1_def status_later_def
  status_confirmed_def self_two_passes_def self_cross_first_def self_locked_def self_empty_def

lemma total_seconds_le: "total_seconds d \<le> 7200 \<longleftrightarrow> d \<le> 7200000000"
  by (simp add: total_seconds_def divide_le_eq)

text \<open>
  Claim C5. \<^verbatim>\<open>Formation.is_legal\<close> is true exactly when the four counts sum to 11, there
  is one goalkeeper, three to five defenders, two to five midfielders and one to three
  forwards; 1-4-4-2 is legal and 1-4-4-3 is not.
\<close>

theorem is_legal_iff:
  "(is_legal f \<longleftrightarrow>
      gk f + def' f + mid f + fwd f = 11 \<and> gk f = 1 \<and>
      3 \<le> def' f \<and> def' f \<le> 5 \<and> 2 \<le> mid f \<and> mid f \<le> 5 \<and> 1 \<le> fwd f \<and> fwd f \<le> 3)
   \<and> is_legal \<lparr>gk = 1, def' = 4, mid = 4, fwd = 2\<rparr>
   \<and> \<not> is_legal \<lparr>gk = 1, def' = 4, mid = 4, fwd = 3\<rparr>"
  by (simp add: is_legal_def)

text \<open>
  Claim C7. \<^verbatim>\<open>is_game_soon(now)\<close> is true exactly when the game time is set and lies at
  most 7200 seconds (7200000000 microseconds) after \<open>now\<close>; it is false without a game
  time, and true for a game that has already begun.
\<close>

theorem is_game_soon_iff:
  "(is_game_soon s now \<longleftrightarrow> (\<exists>gt. game_time s = Some gt \<and> gt - now \<le> 7200 * 1000000))
   \<and> \<not> is_game_soon (s\<lparr>game_time := None\<rparr>) now
   \<and> is_game_soon (s\<lparr>game_time := Some (now - int n)\<rparr>) now"
  by (simp add: is_game_soon_def total_seconds_le split: option.splits)

section \<open>can\_swap\_players\<close>

lemma formation_copy:
  "\<lparr>gk = gk cf, def' = def' cf, mid = mid cf, fwd = fwd cf\<rparr> = (cf :: Formation)"
  by simp

lemma can_swap_players_total:
  assumes "player starter = Some sp" and "player bench = Some bp"
  shows "\<exists>b reason. can_swap_players self starter bench cf = Inr (b, reason)"
  using assms by (auto simp add: can_swap_players_def Let_def)

text \<open>
  Claim C6. When the status map holds a locked entry for the starter or for the bench
  player, \<^verbatim>\<open>can_swap_players\<close> returns \<^verbatim>\<open>False\<close>, whatever the current formation is
  (so also when the formation after the swap would be legal).
\<close>

theorem can_swap_players_locked:
  assumes "player starter = Some sp" and "player bench = Some bp"
    and "(\<exists>st. get_player_status self (id' sp) = Some st \<and> is_locked st) \<or>
         (\<exists>st. get_player_status self (id' bp) = Some st \<and> is_locked st)"
  shows "\<exists>reason. can_swap_players self starter bench cf = Inr (False, reason)"
  using assms by (auto simp add: can_swap_players_def Let_def split: option.splits)

theorem can_swap_players_locked_witness:
  "player (sample_row ''D'' ''d1'') = Some \<lparr>id' = ''d1'', name = ''d1''\<rparr> \<and>
   player (sample_row ''D'' ''s'') = Some \<lparr>id' = ''s'', name = ''s''\<rparr> \<and>
   (\<exists>st. get_player_status self_locked ''d1'' = Some st \<and> is_locked st) \<and>
   is_legal (formation_plus ''D'' (formation_minus ''D'' (get_current_formation sample_roster))) \<and>
   (\<exists>reason. can_swap_players self_locked (sample_row ''D'' ''d1'') (sample_row ''D'' ''s'')
                (get_current_formation sample_roster) = Inr (False, reason))"
proof -
  have h1: "player (sample_row ''D'' ''d1'') = Some \<lparr>id' = ''d1'', name = ''d1''\<rparr>"
    by (simp add: sample_row_def)
  have h2: "player (sample_row ''D'' ''s'') = Some \<lparr>id' = ''s'', name = ''s''\<rparr>"
    by (simp add: sample_row_def)
  have h3: "\<exists>st. get_player_status self_locked (id' \<lparr>id' = ''d1'', name = ''d1''\<rparr>) = Some st \<and>
              is_locked st"
    by (simp add: get_player_status_def sample_defs)
  have h4: "is_legal (formation_plus ''D'' (formation_minus ''D''
              (get_current_formation sample_roster)))"
    by code_simp
  from can_swap_players_locked[OF h1 h2 disjI1[OF h3]] h1 h2 h3 h4
  show ?thesis by simp
qed

text \<open>
  Claim C10. A player without an entry in the status map is never rejected as locked:
  the lock check of \<^verbatim>\<open>can_swap_players\<close> is skipped for him, and when neither player has
  an entry the result is the legality of the formation after the swap.
\<close>

theorem can_swap_players_no_status:
  assumes "player starter = Some sp" and "player bench = Some bp"
  shows
    "(get_player_status self (id' sp) = None \<longrightarrow>
        (\<exists>reason. can_swap_players self starter bench cf =
           Inr (\<not> (case get_player_status self (id' bp) of None \<Rightarrow> False | Some st \<Rightarrow> is_locked st) \<and>
                is_legal (formation_plus (short_name (pos bench))
                           (formation_minus (short_name (pos starter)) cf)), reason))) \<and>
     (get_player_status self (id' bp) = None \<longrightarrow>
        (\<exists>reason. can_swap_players self starter bench cf =
           Inr (\<not> (case get_player_status self (id' sp) of None \<Rightarrow> False | Some st \<Rightarrow> is_locked st) \<and>
                is_legal (formation_plus (short_name (pos bench))
                           (formation_minus (short_name (pos starter)) cf)), reason))) \<and>
     (get_player_status self (id' sp) = None \<and> get_player_status self (id' bp) = None \<longrightarrow>
        (\<exists>reason. can_swap_players self starter bench cf =
           Inr (is_legal (formation_plus (short_name (pos bench))
                           (formation_minus (short_name (pos starter)) cf)), reason)))"
  using assms by (auto simp add: can_swap_players_def Let_def formation_copy split: option.splits)

theorem can_swap_players_no_status_witness:
  "player (sample_row ''D'' ''d1'') = Some \<lparr>id' = ''d1'', name = ''d1''\<rparr> \<and>
   player (sample_row ''F'' ''x'') = Some \<lparr>id' = ''x'', name = ''x''\<rparr> \<and>
   get_player_status self_empty ''d1'' = None \<and> get_player_status self_empty ''x'' = None \<and>
   \<not> is_legal (formation_plus ''F'' (formation_minus ''D'' \<lparr>gk = 1, def' = 3, mid = 4, fwd = 3\<rparr>)) \<and>
   (\<exists>reason. can_swap_players self_empty (sample_row ''D'' ''d1'') (sample_row ''F'' ''x'')
                \<lparr>gk = 1, def' = 3, mid = 4, fwd = 3\<rparr> = Inr (False, reason)) \<and>
   (\<exists>reason. can_swap_players self_empty (sample_row ''D'' ''d1'') (sample_row ''F'' ''x'')
                \<lparr>gk = 1, def' = 4, mid = 4, fwd = 2\<rparr> = Inr (True, reason))"
proof -
  have h1: "player (sample_row ''D'' ''d1'') = Some \<lparr>id' = ''d1'', name = ''d1''\<rparr>"
    by (simp add: sample_row_def)
  have h2: "player (sample_row ''F'' ''x'') = Some \<lparr>id' = ''x'', name = ''x''\<rparr>"
    by (simp add: sample_row_def)
  have h3: "get_player_status self_empty ''d1'' = None"
    by (simp add: get_player_status_def self_empty_def)
  have h4: "get_player_status self_empty ''x'' = None"
    by (simp add: get_player_status_def self_empty_def)
  have l1: "\<not> is_legal (formation_plus ''F'' (formation_minus ''D''
              \<lparr>gk = 1, def' = 3, mid = 4, fwd = 3\<rparr>))"
    by code_simp
  have l2: "is_legal (formation_plus ''F'' (formation_minus ''D''
              \<lparr>gk = 1, def' = 4, mid = 4, fwd = 2\<rparr>))"
    by code_simp
  have p: "short_name (pos (sample_row ''D'' ''d1'')) = ''D''"
          "short_name (pos (sample_row ''F'' ''x'')) = ''F''"
    by (simp_all add: sample_row_def)
  from can_swap_players_no_status[OF h1 h2, of self_empty "\<lparr>gk = 1, def' = 3, mid = 4, fwd = 3\<rparr>"]
       can_swap_players_no_status[OF h1 h2, of self_empty "\<lparr>gk = 1, def' = 4, mid = 4, fwd = 2\<rparr>"]
       h1 h2 h3 h4 l1 l2 p
  show ?thesis by simp
qed

section \<open>find\_optimal\_swaps\<close>

lemma collect_players_fst:
  "map fst (collect_players self rows) = filter (\<lambda>r. player r \<noteq> None) rows"
  by (induction rows) (auto split: option.splits)

lemma collect_players_wf:
  "(row, st) \<in> set (collect_players self rows) \<Longrightarrow>
     \<exists>p. player row = Some p \<and> st = get_player_status self (id' p)"
  by (induction rows) (auto split: option.splits)

lemma pass1_search_mem:
  "pass1_search self now cf starter ss bs best latest = Inr (Some (bb, r)) \<Longrightarrow>
     best = Some (bb, r) \<or> bb \<in> fst ` set bs"
proof (induction bs arbitrary: best latest)
  case Nil
  then show ?case by simp
next
  case (Cons x bs)
  obtain bench bench_status where x: "x = (bench, bench_status)" by (cases x)
  from Cons.prems show ?case
    unfolding x
    by (auto split: option.splits if_splits sum.splits prod.splits dest!: Cons.IH)
qed

lemma pass1_search_total:
  assumes "player starter = Some sp" and "\<forall>x\<in>set bs. player (fst x) \<noteq> None"
  shows "\<exists>res. pass1_search self now cf starter ss bs best latest = Inr res"
  using assms(2)
proof (induction bs arbitrary: best latest)
  case Nil
  then show ?case by simp
next
  case (Cons x bs)
  obtain bench bench_status where x: "x = (bench, bench_status)" by (cases x)
  from Cons.prems obtain bp where bp: "player bench = Some bp"
    by (auto simp: x)
  obtain b reason where cs: "can_swap_players self starter bench cf = Inr (b, reason)"
    using can_swap_players_total[OF assms(1) bp] by blast
  have IH: "\<And>best latest. \<exists>res. pass1_search self now cf starter ss bs best latest = Inr res"
    using Cons.IH Cons.prems by simp
  show ?case
    unfolding x using IH
    by (simp add: cs split: option.splits)
qed

lemma pass2_search_mem:
  "pass2_search self cf starter bs best = Inr (Some (bb, r)) \<Longrightarrow>
     best = Some (bb, r) \<or> bb \<in> fst ` set bs"
proof (induction bs arbitrary: best)
  case Nil
  then show ?case by simp
next
  case (Cons x bs)
  obtain bench bench_status where x: "x = (bench, bench_status)" by (cases x)
  from Cons.prems show ?case
    unfolding x
    by (auto split: option.splits if_splits sum.splits prod.splits dest!: Cons.IH)
qed

lemma pass2_search_total:
  assumes "player starter = Some sp" and "\<forall>x\<in>set bs. player (fst x) \<noteq> None"
  shows "\<exists>res. pass2_search self cf starter bs best = Inr res"
  using assms(2)
proof (induction bs arbitrary: best)
  case Nil
  then show ?case by simp
next
  case (Cons x bs)
  obtain bench bench_status where x: "x = (bench, bench_status)" by (cases x)
  from Cons.prems obtain bp where bp: "player bench = Some bp"
    by (auto simp: x)
  obtain b reason where cs: "can_swap_players self starter bench cf = Inr (b, reason)"
    using can_swap_players_total[OF assms(1) bp] by blast
  have IH: "\<And>best. \<exists>res. pass2_search self cf starter bs best = Inr res"
    using Cons.IH Cons.prems by simp
  show ?case
    unfolding x using IH
    by (simp add: cs split: option.splits)
qed

lemma remove_bench_ok:
  assumes "player bb = Some p" and "(bb, get_player_status self (id' p)) \<in> set xs"
  shows "remove_bench self bb xs = Inr (remove1 (bb, get_player_status self (id' p)) xs)"
  using assms by (simp add: remove_bench_def)

lemma mset_map_fst_remove1:
  assumes "(bb, st) \<in> set xs"
  shows "add_mset bb (mset (map fst (remove1 (bb, st) xs))) = mset (map fst xs)"
proof -
  have "mset xs = add_mset (bb, st) (mset (remove1 (bb, st) xs))"
    using assms by simp
  then have "image_mset fst (mset xs) = image_mset fst (add_mset (bb, st) (mset (remove1 (bb, st) xs)))"
    by simp
  then show ?thesis by simp
qed

text \<open>One accepted proposal: the step both passes take after a successful search.\<close>

lemma accept_step:
  assumes wf: "\<forall>x\<in>set bs. \<exists>p. player (fst x) = Some p \<and> snd x = get_player_status self (id' p)"
    and mem: "bb \<in> fst ` set bs"
  shows "\<exists>bs'. remove_bench self bb bs = Inr bs' \<and> set bs' \<subseteq> set bs \<and>
           add_mset bb (mset (map fst bs')) = mset (map fst bs)"
proof -
  from mem obtain st where st: "(bb, st) \<in> set bs" by auto
  with wf obtain p where p: "player bb = Some p" "st = get_player_status self (id' p)"
    by fastforce
  have "remove_bench self bb bs = Inr (remove1 (bb, st) bs)"
    using remove_bench_ok[OF p(1)] st p(2) by simp
  moreover have "set (remove1 (bb, st) bs) \<subseteq> set bs"
    by (rule set_remove1_subset)
  moreover have "add_mset bb (mset (map fst (remove1 (bb, st) bs))) = mset (map fst bs)"
    by (rule mset_map_fst_remove1[OF st])
  ultimately show ?thesis by blast
qed

lemma pass1_conserves:
  assumes "\<forall>x\<in>set sps. player (fst x) \<noteq> None"
    and "\<forall>x\<in>set bs. \<exists>p. player (fst x) = Some p \<and> snd x = get_player_status self (id' p)"
  shows "\<exists>swaps' bs'. pass1 self now cf sps swaps bs = Inr (swaps', bs') \<and>
           set bs' \<subseteq> set bs \<and>
           mset (map swap_bench swaps') + mset (map fst bs') =
           mset (map swap_bench swaps) + mset (map fst bs)"
  using assms
proof (induction sps arbitrary: swaps bs)
  case Nil
  then show ?case by simp
next
  case (Cons x sps)
  obtain starter starter_status where x: "x = (starter, starter_status)" by (cases x)
  have sps: "\<forall>x\<in>set sps. player (fst x) \<noteq> None"
    using Cons.prems(1) by simp
  obtain sp where sp: "player starter = Some sp"
    using Cons.prems(1) by (auto simp: x)
  have skip: "\<exists>swaps' bs'. pass1 self now cf sps swaps bs = Inr (swaps', bs') \<and>
           set bs' \<subseteq> set bs \<and>
           mset (map swap_bench swaps') + mset (map fst bs') =
           mset (map swap_bench swaps) + mset (map fst bs)"
    by (rule Cons.IH[OF sps Cons.prems(2)])
  have bsp: "\<forall>x\<in>set bs. player (fst x) \<noteq> None"
    using Cons.prems(2) by fastforce
  show ?case
  proof (cases "\<exists>ss. starter_status = Some ss \<and> is_game_soon ss now \<and>
                  is_confirmed_not_starting ss")
    case False
    then have "pass1 self now cf (x # sps) swaps bs = pass1 self now cf sps swaps bs"
      by (auto simp add: x split: option.splits)
    then show ?thesis using skip by (simp only:)
  next
    case True
    then obtain ss where ss: "starter_status = Some ss" "is_game_soon ss now"
      "is_confirmed_not_starting ss" by blast
    obtain res where res: "pass1_search self now cf starter ss bs None None = Inr res"
      using pass1_search_total[OF sp bsp] by blast
    show ?thesis
    proof (cases res)
      case None
      then have "pass1 self now cf (x # sps) swaps bs = pass1 self now cf sps swaps bs"
        using ss res by (simp add: x)
      then show ?thesis using skip by (simp only:)
    next
      case (Some br)
      obtain bb r where br: "br = (bb, r)" by (cases br)
      have "bb \<in> fst ` set bs"
        using pass1_search_mem[of self now cf starter ss bs None None bb r] res Some br by simp
      from accept_step[OF Cons.prems(2) this] obtain bs1 where bs1:
        "remove_bench self bb bs = Inr bs1" "set bs1 \<subseteq> set bs"
        "add_mset bb (mset (map fst bs1)) = mset (map fst bs)" by blast
      have wf1: "\<forall>x\<in>set bs1. \<exists>p. player (fst x) = Some p \<and> snd x = get_player_status self (id' p)"
        using Cons.prems(2) bs1(2) by blast
      from Cons.IH[OF sps wf1, of "swaps @ [(starter, bb, r)]"] obtain swaps' bs' where step:
        "pass1 self now cf sps (swaps @ [(starter, bb, r)]) bs1 = Inr (swaps', bs')"
        "set bs' \<subseteq> set bs1"
        "mset (map swap_bench swaps') + mset (map fst bs') =
           mset (map swap_bench (swaps @ [(starter, bb, r)])) + mset (map fst bs1)"
        by blast
      have eq: "pass1 self now cf (x # sps) swaps bs = Inr (swaps', bs')"
        using step(1) res Some br bs1(1) ss by (simp add: x)
      have sub: "set bs' \<subseteq> set bs"
        using step(2) bs1(2) by blast
      have "mset (map swap_bench swaps') + mset (map fst bs') =
               mset (map swap_bench swaps) + add_mset bb (mset (map fst bs1))"
        using step(3) by (simp add: swap_bench_def)
      then have "mset (map swap_bench swaps') + mset (map fst bs') =
               mset (map swap_bench swaps) + mset (map fst bs)"
        using bs1(3) by simp
      then show ?thesis using eq sub by blast
    qed
  qed
qed


lemma pass2_conserves:
  assumes "\<forall>x\<in>set sps. player (fst x) \<noteq> None"
    and "\<forall>x\<in>set bs. \<exists>p. player (fst x) = Some p \<and> snd x = get_player_status self (id' p)"
  shows "\<exists>swaps' bs'. pass2 self cf sps swaps bs = Inr (swaps', bs') \<and>
           set bs' \<subseteq> set bs \<and>
           mset (map swap_bench swaps') + mset (map fst bs') =
           mset (map swap_bench swaps) + mset (map fst bs)"
  using assms
proof (induction sps arbitrary: swaps bs)
  case Nil
  then show ?case by simp
next
  case (Cons x sps)
  obtain starter starter_status where x: "x = (starter, starter_status)" by (cases x)
  have sps: "\<forall>x\<in>set sps. player (fst x) \<noteq> None"
    using Cons.prems(1) by simp
  obtain sp where sp: "player starter = Some sp"
    using Cons.prems(1) by (auto simp: x)
  have skip: "\<exists>swaps' bs'. pass2 self cf sps swaps bs = Inr (swaps', bs') \<and>
           set bs' \<subseteq> set bs \<and>
           mset (map swap_bench swaps') + mset (map fst bs') =
           mset (map swap_bench swaps) + mset (map fst bs)"
    by (rule Cons.IH[OF sps Cons.prems(2)])
  have bsp: "\<forall>x\<in>set bs. player (fst x) \<noteq> None"
    using Cons.prems(2) by fastforce
  show ?case
  proof (cases "\<exists>ss. starter_status = Some ss \<and> is_confirmed_not_starting ss")
    case False
    then have "pass2 self cf (x # sps) swaps bs = pass2 self cf sps swaps bs"
      by (auto simp add: x split: option.splits)
    then show ?thesis using skip by (simp only:)
  next
    case True
    then obtain ss where ss: "starter_status = Some ss" "is_confirmed_not_starting ss" by blast
    obtain res where res: "pass2_search self cf starter bs None = Inr res"
      using pass2_search_total[OF sp bsp] by blast
    show ?thesis
    proof (cases res)
      case None
      then have "pass2 self cf (x # sps) swaps bs = pass2 self cf sps swaps bs"
        using ss res by (simp add: x)
      then show ?thesis using skip by (simp only:)
    next
      case (Some br)
      obtain bb r where br: "br = (bb, r)" by (cases br)
      have "bb \<in> fst ` set bs"
        using pass2_search_mem[of self cf starter bs None bb r] res Some br by simp
      from accept_step[OF Cons.prems(2) this] obtain bs1 where bs1:
        "remove_bench self bb bs = Inr bs1" "set bs1 \<subseteq> set bs"
        "add_mset bb (mset (map fst bs1)) = mset (map fst bs)" by blast
      have wf1: "\<forall>x\<in>set bs1. \<exists>p. player (fst x) = Some p \<and> snd x = get_player_status self (id' p)"
        using Cons.prems(2) bs1(2) by blast
      from Cons.IH[OF sps wf1, of "swaps @ [(starter, bb, r)]"] obtain swaps' bs' where step:
        "pass2 self cf sps (swaps @ [(starter, bb, r)]) bs1 = Inr (swaps', bs')"
        "set bs' \<subseteq> set bs1"
        "mset (map swap_bench swaps') + mset (map fst bs') =
           mset (map swap_bench (swaps @ [(starter, bb, r)])) + mset (map fst bs1)"
        by blast
      have eq: "pass2 self cf (x # sps) swaps bs = Inr (swaps', bs')"
        using step(1) res Some br bs1(1) ss by (simp add: x)
      have sub: "set bs' \<subseteq> set bs"
        using step(2) bs1(2) by blast
      have "mset (map swap_bench swaps') + mset (map fst bs') =
               mset (map swap_bench swaps) + add_mset bb (mset (map fst bs1))"
        using step(3) by (simp add: swap_bench_def)
      then have "mset (map swap_bench swaps') + mset (map fst bs') =
               mset (map swap_bench swaps) + mset (map fst bs)"
        using bs1(3) by simp
      then show ?thesis using eq sub by blast
    qed
  qed
qed

lemma collect_players_wf_all:
  "\<forall>x\<in>set (collect_players self rows).
      \<exists>p. player (fst x) = Some p \<and> snd x = get_player_status self (id' p)"
  by (induction rows) (auto split: option.splits)

lemma find_optimal_swaps_uses_bench_once:
  "\<exists>swaps. find_optimal_swaps self now roster = Inr swaps \<and>
     mset (map swap_bench swaps) \<subseteq>#
       mset (filter (\<lambda>r. player r \<noteq> None) (get_bench_players roster))"
proof -
  let ?cf = "get_current_formation roster"
  let ?sps = "collect_players self (get_starters roster)"
  let ?bs = "collect_players self (get_bench_players roster)"
  have wfs: "\<forall>x\<in>set ?sps. player (fst x) \<noteq> None"
    using collect_players_wf_all[of self "get_starters roster"] by fastforce
  have wfb: "\<forall>x\<in>set ?bs. \<exists>p. player (fst x) = Some p \<and> snd x = get_player_status self (id' p)"
    by (rule collect_players_wf_all)
  from pass1_conserves[OF wfs wfb, of now ?cf "[]"] obtain sw1 bs1 where p1:
    "pass1 self now ?cf ?sps [] ?bs = Inr (sw1, bs1)" "set bs1 \<subseteq> set ?bs"
    "mset (map swap_bench sw1) + mset (map fst bs1) = mset (map swap_bench []) + mset (map fst ?bs)"
    by blast
  have wfb1: "\<forall>x\<in>set bs1. \<exists>p. player (fst x) = Some p \<and> snd x = get_player_status self (id' p)"
    using wfb p1(2) by blast
  from pass2_conserves[OF wfs wfb1, of ?cf sw1] obtain sw2 bs2 where p2:
    "pass2 self ?cf ?sps sw1 bs1 = Inr (sw2, bs2)"
    "mset (map swap_bench sw2) + mset (map fst bs2) = mset (map swap_bench sw1) + mset (map fst bs1)"
    by blast
  have res: "find_optimal_swaps self now roster = Inr sw2"
    using p1(1) p2(1) by (simp add: find_optimal_swaps_def)
  have "mset (map swap_bench sw2) + mset (map fst bs2) = mset (map fst ?bs)"
    using p1(3) p2(2) by simp
  then have "mset (map swap_bench sw2) \<subseteq># mset (map fst ?bs)"
    by (metis mset_subset_eq_add_left)
  then show ?thesis using res by (simp add: collect_players_fst)
qed

lemma distinct_iff_count_le_1: "distinct xs \<longleftrightarrow> (\<forall>a. count (mset xs) a \<le> 1)"
proof (induction xs)
  case Nil
  then show ?case by simp
next
  case (Cons x xs)
  have "(\<forall>a. count (mset (x # xs)) a \<le> 1) \<longleftrightarrow>
        count (mset xs) x = 0 \<and> (\<forall>a. count (mset xs) a \<le> 1)"
    by (auto simp: le_Suc_eq)
  then show ?case using Cons.IH by (simp add: count_eq_zero_iff)
qed

lemma distinct_map_of_submset:
  assumes "mset ys \<subseteq># mset xs" and "distinct (map f xs)"
  shows "distinct (map f ys)"
proof -
  have "image_mset f (mset ys) \<subseteq># image_mset f (mset xs)"
    using assms(1) by (rule image_mset_subseteq_mono)
  then have "mset (map f ys) \<subseteq># mset (map f xs)" by simp
  then have "\<And>a. count (mset (map f ys)) a \<le> count (mset (map f xs)) a"
    by (rule mset_subset_eq_count)
  moreover have "\<And>a. count (mset (map f xs)) a \<le> 1"
    using assms(2) distinct_iff_count_le_1[of "map f xs"] by blast
  ultimately have "\<And>a. count (mset (map f ys)) a \<le> 1"
    using order_trans by blast
  then show ?thesis using distinct_iff_count_le_1[of "map f ys"] by blast
qed

text \<open>
  Claim C4. On a roster whose occupied bench rows hold distinct players,
  \<^verbatim>\<open>find_optimal_swaps\<close> returns a list of proposals, and no bench player appears in more
  than one of them: a bench player claimed in pass 1 or pass 2 is used by no later
  proposal.
\<close>

theorem find_optimal_swaps_bench_players_distinct:
  assumes "distinct (map (\<lambda>r. map_option id' (player r))
             (filter (\<lambda>r. player r \<noteq> None) (get_bench_players roster)))"
  shows "\<exists>swaps. find_optimal_swaps self now roster = Inr swaps \<and>
           distinct (map (\<lambda>s. map_option id' (player (swap_bench s))) swaps)"
proof -
  from find_optimal_swaps_uses_bench_once[of self now roster] obtain swaps where sw:
    "find_optimal_swaps self now roster = Inr swaps"
    "mset (map swap_bench swaps) \<subseteq>#
       mset (filter (\<lambda>r. player r \<noteq> None) (get_bench_players roster))" by blast
  have "distinct (map (\<lambda>r. map_option id' (player r)) (map swap_bench swaps))"
    by (rule distinct_map_of_submset[OF sw(2) assms])
  then have "distinct (map (\<lambda>s. map_option id' (player (swap_bench s))) swaps)"
    by (simp add: comp_def)
  with sw(1) show ?thesis by blast
qed

theorem find_optimal_swaps_bench_players_distinct_witness:
  "distinct (map (\<lambda>r. map_option id' (player r))
      (filter (\<lambda>r. player r \<noteq> None) (get_bench_players sample_roster))) \<and>
   (\<exists>swaps. find_optimal_swaps self_two_passes 0 sample_roster = Inr swaps \<and>
      length swaps = 2 \<and>
      distinct (map (\<lambda>s. map_option id' (player (swap_bench s))) swaps))"
proof -
  have h: "distinct (map (\<lambda>r. map_option id' (player r))
      (filter (\<lambda>r. player r \<noteq> None) (get_bench_players sample_roster)))"
    by code_simp
  have l: "map_sum id length (find_optimal_swaps self_two_passes 0 sample_roster) = Inr 2"
    by code_simp
  from find_optimal_swaps_bench_players_distinct[OF h, of self_two_passes 0] h l
  show ?thesis by auto
qed

text \<open>
  Claim C1 (the program departs from it). Starter \<open>d1\<close> is confirmed not starting and
  plays within the hour; the bench holds defender \<open>s\<close> (later game, line-up unknown) and
  defender \<open>c\<close> (confirmed starting). Pass 1 proposes \<open>d1\<close> for \<open>s\<close>, and pass 2, which
  walks over all starters again, proposes \<open>d1\<close> a second time, for \<open>c\<close>.
\<close>

theorem find_optimal_swaps_same_starter_twice:
  "find_optimal_swaps self_two_passes 0 sample_roster =
     Inr [(sample_row ''D'' ''d1'', sample_row ''D'' ''s'',
           ''Direct position match - replacing confirmed non-starter (vs MUN) with player from later game (vs LIV)''),
          (sample_row ''D'' ''d1'', sample_row ''D'' ''c'',
           ''Direct position match - replacing non-starter with confirmed starter'')] \<and>
   map_sum id (map swap_starter) (find_optimal_swaps self_two_passes 0 sample_roster) =
     Inr [sample_row ''D'' ''d1'', sample_row ''D'' ''d1'']"
  by code_simp

text \<open>
  Claim C3 (the program departs from it). Starter \<open>d1\<close> (a defender) is eligible in
  pass 1. The bench holds midfielder \<open>x\<close>, kick-off in ten hours, before defender \<open>s\<close>,
  kick-off in eight hours; both are legal candidates whose game is not soon. The
  cross-position candidate \<open>x\<close> is met first and sets the latest game time, so the
  same-position candidate \<open>s\<close> is passed over and the proposal is the position-flexible one.
\<close>

theorem pass1_cross_position_chosen:
  "can_swap_players self_cross_first (sample_row ''D'' ''d1'') (sample_row ''D'' ''s'')
     (get_current_formation sample_roster) = Inr (True, ''Swap is valid'') \<and>
   get_player_status self_cross_first ''s'' = Some (status_later (hours 8) ''vs LIV'') \<and>
   \<not> is_game_soon (status_later (hours 8) ''vs LIV'') 0 \<and>
   find_optimal_swaps self_cross_first 0 sample_roster =
     Inr [(sample_row ''D'' ''d1'', sample_row ''M'' ''x'',
           ''Position flexible swap - replacing confirmed non-starter (vs MUN) with player from later game (vs ARS)'')]"
  by code_simp

section \<open>The planner reads only the roster's entries\<close>

lemma can_swap_players_same_status:
  assumes "same_status s1 s2 starter" and "same_status s1 s2 bench"
  shows "can_swap_players s1 starter bench cf = can_swap_players s2 starter bench cf"
proof (cases "player starter")
  case None
  then show ?thesis by (simp add: can_swap_players_def)
next
  case sp: (Some sp)
  show ?thesis
  proof (cases "player bench")
    case None
    then show ?thesis using sp assms(1) by (simp add: can_swap_players_def same_status_def)
  next
    case (Some bp)
    then show ?thesis using sp assms by (simp add: can_swap_players_def same_status_def)
  qed
qed

lemma collect_players_same_status:
  assumes "\<forall>row\<in>set rows. same_status s1 s2 row"
  shows "collect_players s1 rows = collect_players s2 rows"
  using assms by (induction rows) (auto simp: same_status_def split: option.splits)

lemma remove_bench_same_status:
  assumes "same_status s1 s2 bb"
  shows "remove_bench s1 bb xs = remove_bench s2 bb xs"
  using assms by (simp add: remove_bench_def same_status_def split: option.splits)

lemma remove_bench_subset:
  assumes "remove_bench self bb xs = Inr ys"
  shows "set ys \<subseteq> set xs"
  using assms set_remove1_subset
  by (fastforce simp add: remove_bench_def Let_def split: option.splits if_splits)

lemma pass1_search_same_status:
  assumes "same_status s1 s2 starter" and "\<forall>x\<in>set bs. same_status s1 s2 (fst x)"
  shows "pass1_search s1 now cf starter ss bs best latest =
         pass1_search s2 now cf starter ss bs best latest"
  using assms(2)
proof (induction bs arbitrary: best latest)
  case Nil
  then show ?case by simp
next
  case (Cons x bs)
  obtain bench bench_status where x: "x = (bench, bench_status)" by (cases x)
  have cs: "can_swap_players s1 starter bench cf = can_swap_players s2 starter bench cf"
    using can_swap_players_same_status[OF assms(1)] Cons.prems by (simp add: x)
  have IH: "\<And>best latest. pass1_search s1 now cf starter ss bs best latest =
         pass1_search s2 now cf starter ss bs best latest"
    using Cons.IH Cons.prems by simp
  show ?case
    unfolding x by (simp add: cs IH cong: option.case_cong sum.case_cong if_cong)
qed

lemma pass2_search_same_status:
  assumes "same_status s1 s2 starter" and "\<forall>x\<in>set bs. same_status s1 s2 (fst x)"
  shows "pass2_search s1 cf starter bs best = pass2_search s2 cf starter bs best"
  using assms(2)
proof (induction bs arbitrary: best)
  case Nil
  then show ?case by simp
next
  case (Cons x bs)
  obtain bench bench_status where x: "x = (bench, bench_status)" by (cases x)
  have cs: "can_swap_players s1 starter bench cf = can_swap_players s2 starter bench cf"
    using can_swap_players_same_status[OF assms(1)] Cons.prems by (simp add: x)
  have IH: "\<And>best. pass2_search s1 cf starter bs best = pass2_search s2 cf starter bs best"
    using Cons.IH Cons.prems by simp
  show ?case
    unfolding x by (simp add: cs IH cong: option.case_cong sum.case_cong if_cong)
qed

lemma pass1_same_status:
  assumes "\<forall>x\<in>set sps. same_status s1 s2 (fst x)" and "\<forall>x\<in>set bs. same_status s1 s2 (fst x)"
  shows "pass1 s1 now cf sps swaps bs = pass1 s2 now cf sps swaps bs"
  using assms
proof (induction sps arbitrary: swaps bs)
  case Nil
  then show ?case by simp
next
  case (Cons x sps)
  obtain starter starter_status where x: "x = (starter, starter_status)" by (cases x)
  have st: "same_status s1 s2 starter" and sps: "\<forall>x\<in>set sps. same_status s1 s2 (fst x)"
    using Cons.prems(1) by (simp_all add: x)
  have search: "\<And>ss. pass1_search s1 now cf starter ss bs None None =
                     pass1_search s2 now cf starter ss bs None None"
    by (rule pass1_search_same_status[OF st Cons.prems(2)])
  have rest: "\<And>swaps. pass1 s1 now cf sps swaps bs = pass1 s2 now cf sps swaps bs"
    by (rule Cons.IH[OF sps Cons.prems(2)])
  have accept: "(case remove_bench s1 bb bs of Inl e \<Rightarrow> Inl e
                 | Inr bs' \<Rightarrow> pass1 s1 now cf sps sw bs') =
                (case remove_bench s2 bb bs of Inl e \<Rightarrow> Inl e
                 | Inr bs' \<Rightarrow> pass1 s2 now cf sps sw bs')"
    if "pass1_search s2 now cf starter ss bs None None = Inr (Some (bb, r))" for ss bb r sw
  proof -
    have "bb \<in> fst ` set bs"
      using pass1_search_mem[OF that] by simp
    then have bb: "same_status s1 s2 bb" using Cons.prems(2) by auto
    have rm: "remove_bench s1 bb bs = remove_bench s2 bb bs"
      by (rule remove_bench_same_status[OF bb])
    show ?thesis
    proof (cases "remove_bench s2 bb bs")
      case (Inl e)
      then show ?thesis by (simp add: rm)
    next
      case (Inr bs')
      then have "\<forall>x\<in>set bs'. same_status s1 s2 (fst x)"
        using remove_bench_subset Cons.prems(2) by blast
      then have "pass1 s1 now cf sps sw bs' = pass1 s2 now cf sps sw bs'"
        by (rule Cons.IH[OF sps])
      then show ?thesis by (simp add: rm Inr)
    qed
  qed
  show ?case
    unfolding x
    by (auto simp add: search rest accept split: option.splits sum.splits)
qed

lemma pass1_subset:
  "pass1 self now cf sps swaps bs = Inr (swaps', bs') \<Longrightarrow> set bs' \<subseteq> set bs"
proof (induction sps arbitrary: swaps bs)
  case Nil
  then show ?case by simp
next
  case (Cons x sps)
  obtain starter starter_status where x: "x = (starter, starter_status)" by (cases x)
  from Cons.prems show ?case
    unfolding x
    by (fastforce split: option.splits sum.splits if_splits
             dest!: Cons.IH remove_bench_subset)
qed

lemma pass2_same_status:
  assumes "\<forall>x\<in>set sps. same_status s1 s2 (fst x)" and "\<forall>x\<in>set bs. same_status s1 s2 (fst x)"
  shows "pass2 s1 cf sps swaps bs = pass2 s2 cf sps swaps bs"
  using assms
proof (induction sps arbitrary: swaps bs)
  case Nil
  then show ?case by simp
next
  case (Cons x sps)
  obtain starter starter_status where x: "x = (starter, starter_status)" by (cases x)
  have st: "same_status s1 s2 starter" and sps: "\<forall>x\<in>set sps. same_status s1 s2 (fst x)"
    using Cons.prems(1) by (simp_all add: x)
  have search: "pass2_search s1 cf starter bs None = pass2_search s2 cf starter bs None"
    by (rule pass2_search_same_status[OF st Cons.prems(2)])
  have rest: "\<And>swaps. pass2 s1 cf sps swaps bs = pass2 s2 cf sps swaps bs"
    by (rule Cons.IH[OF sps Cons.prems(2)])
  have accept: "(case remove_bench s1 bb bs of Inl e \<Rightarrow> Inl e
                 | Inr bs' \<Rightarrow> pass2 s1 cf sps sw bs') =
                (case remove_bench s2 bb bs of Inl e \<Rightarrow> Inl e
                 | Inr bs' \<Rightarrow> pass2 s2 cf sps sw bs')"
    if "pass2_search s2 cf starter bs None = Inr (Some (bb, r))" for bb r sw
  proof -
    have "bb \<in> fst ` set bs"
      using pass2_search_mem[OF that] by simp
    then have bb: "same_status s1 s2 bb" using Cons.prems(2) by auto
    have rm: "remove_bench s1 bb bs = remove_bench s2 bb bs"
      by (rule remove_bench_same_status[OF bb])
    show ?thesis
    proof (cases "remove_bench s2 bb bs")
      case (Inl e)
      then show ?thesis by (simp add: rm)
    next
      case (Inr bs')
      then have "\<forall>x\<in>set bs'. same_status s1 s2 (fst x)"
        using remove_bench_subset Cons.prems(2) by blast
      then have "pass2 s1 cf sps sw bs' = pass2 s2 cf sps sw bs'"
        by (rule Cons.IH[OF sps])
      then show ?thesis by (simp add: rm Inr)
    qed
  qed
  show ?case
    unfolding x
    by (auto simp add: search rest accept split: option.splits sum.splits)
qed

lemma collect_players_rows:
  "fst ` set (collect_players self rows) \<subseteq> set rows"
  by (induction rows) (auto split: option.splits)

text \<open>
  Claim C9. The proposals are a function of the roster, the current time and the status
  entries of the roster's players: two optimizer states that hold the same entry for
  every player of the roster (whatever else they hold, such as the time of the last
  check) yield the same sequence of proposals, or the same exception. Running the planner
  twice on one unmodified snapshot is the case of equal states.
\<close>

theorem find_optimal_swaps_deterministic:
  assumes "list_all (same_status s1 s2) (get_starters roster @ get_bench_players roster)"
  shows "find_optimal_swaps s1 now roster = find_optimal_swaps s2 now roster"
proof -
  have assms': "\<forall>row\<in>set (get_starters roster @ get_bench_players roster). same_status s1 s2 row"
    using assms by (simp add: list_all_iff)
  let ?cf = "get_current_formation roster"
  have cs: "collect_players s1 (get_starters roster) = collect_players s2 (get_starters roster)"
    using assms' by (intro collect_players_same_status) simp
  have cb: "collect_players s1 (get_bench_players roster) =
            collect_players s2 (get_bench_players roster)"
    using assms' by (intro collect_players_same_status) simp
  let ?sps = "collect_players s2 (get_starters roster)"
  let ?bs = "collect_players s2 (get_bench_players roster)"
  have as: "\<forall>x\<in>set ?sps. same_status s1 s2 (fst x)"
    using assms' collect_players_rows[of s2 "get_starters roster"] by auto
  have ab: "\<forall>x\<in>set ?bs. same_status s1 s2 (fst x)"
    using assms' collect_players_rows[of s2 "get_bench_players roster"] by auto
  have p1: "pass1 s1 now ?cf ?sps [] ?bs = pass1 s2 now ?cf ?sps [] ?bs"
    by (rule pass1_same_status[OF as ab])
  have p2: "pass2 s1 ?cf ?sps sw bs' = pass2 s2 ?cf ?sps sw bs'"
    if "pass1 s2 now ?cf ?sps [] ?bs = Inr (sw, bs')" for sw bs'
  proof -
    have "set bs' \<subseteq> set ?bs" using pass1_subset[OF that] .
    then have "\<forall>x\<in>set bs'. same_status s1 s2 (fst x)" using ab by blast
    then show ?thesis by (rule pass2_same_status[OF as])
  qed
  show ?thesis
  proof (cases "pass1 s2 now ?cf ?sps [] ?bs")
    case (Inl e)
    then show ?thesis by (simp add: find_optimal_swaps_def cs cb p1)
  next
    case (Inr res)
    obtain sw bs' where res: "res = (sw, bs')" by (cases res)
    show ?thesis
      using Inr p2[of sw bs'] by (simp add: find_optimal_swaps_def cs cb p1 res)
  qed
qed


theorem find_optimal_swaps_deterministic_witness:
  "list_all (same_status self_two_passes self_two_passes_later)
     (get_starters sample_roster @ get_bench_players sample_roster) \<and>
   last_check_time self_two_passes \<noteq> last_check_time self_two_passes_later \<and>
   find_optimal_swaps self_two_passes 0 sample_roster =
   find_optimal_swaps self_two_passes_later 0 sample_roster"
proof -
  have h: "list_all (same_status self_two_passes self_two_passes_later)
     (get_starters sample_roster @ get_bench_players sample_roster)"
    by code_simp
  have l: "last_check_time self_two_passes \<noteq> last_check_time self_two_passes_later"
    by code_simp
  from find_optimal_swaps_deterministic[OF h, of 0] h l show ?thesis by simp
qed

section \<open>update\_player\_statuses\<close>

lemma process_player_Inl:
  "process_player strp now p m = Inl e \<longleftrightarrow> p ''scorerId'' = None \<and> e = KeyError ''scorerId''"
  by (auto simp add: process_player_def Let_def split: option.splits prod.splits)

lemma process_players_error:
  "process_players strp now ps m = (Inl e, m') \<Longrightarrow>
     \<exists>before p rest. ps = before @ p # rest \<and>
       process_players strp now before m = (Inr (), m') \<and>
       process_player strp now p m' = Inl e"
proof (induction ps arbitrary: m)
  case Nil
  then show ?case by simp
next
  case (Cons q ps)
  show ?case
  proof (cases "process_player strp now q m")
    case (Inl e')
    with Cons.prems have "e' = e" "m' = m" by simp_all
    then have "q # ps = [] @ q # ps \<and> process_players strp now [] m = (Inr (), m') \<and>
               process_player strp now q m' = Inl e"
      using Inl by simp
    then show ?thesis by blast
  next
    case (Inr m1)
    with Cons.prems have "process_players strp now ps m1 = (Inl e, m')" by simp
    from Cons.IH[OF this] obtain before p rest where d:
      "ps = before @ p # rest" "process_players strp now before m1 = (Inr (), m')"
      "process_player strp now p m' = Inl e" by blast
    have "q # ps = (q # before) @ p # rest \<and>
          process_players strp now (q # before) m = (Inr (), m') \<and>
          process_player strp now p m' = Inl e"
      using d Inr by simp
    then show ?thesis by blast
  qed
qed

lemma fetch_all_players_one_page: "fetch_all_players (one_page recs) = Inr recs"
  by (simp add: fetch_all_players_def one_page_def fetch_player_page_def responses_0_data_def
        fetch_pages.simps[of _ _ 1 1] fetch_pages.simps[of _ _ 1 2])

text \<open>
  Claim C2, as the program behaves. An exception inside the \<^verbatim>\<open>try\<close> block is caught;
  the time of the last check is set, and the status map afterwards holds nothing of its
  prior content: it is empty when the exception came while the pages were fetched, and
  otherwise it is the map built from the empty map by the records that precede the
  failing record.
\<close>

theorem update_player_statuses_on_error:
  assumes "fst (update_try session strp now self) = Inl e"
  shows "last_check_time (update_player_statuses session strp now self) = Some now \<and>
         (case fetch_all_players session of
            Inl e' \<Rightarrow> e' = e \<and>
              player_statuses (update_player_statuses session strp now self) = Map.empty
          | Inr all_players \<Rightarrow>
              (\<exists>before p rest. all_players = before @ p # rest \<and>
                 process_players strp now before Map.empty =
                   (Inr (), player_statuses (update_player_statuses session strp now self)) \<and>
                 process_player strp now p
                   (player_statuses (update_player_statuses session strp now self)) = Inl e))"
proof (cases "fetch_all_players session")
  case (Inl e')
  then show ?thesis
    using assms by (simp add: update_player_statuses_def update_try_def)
next
  case (Inr all_players)
  obtain r m' where pp: "process_players strp now all_players Map.empty = (r, m')"
    by (cases "process_players strp now all_players Map.empty")
  have r: "r = Inl e"
    using assms Inr pp by (simp add: update_try_def)
  have m': "player_statuses (update_player_statuses session strp now self) = m'"
    using Inr pp by (simp add: update_player_statuses_def update_try_def)
  have t: "last_check_time (update_player_statuses session strp now self) = Some now"
    using Inr pp by (simp add: update_player_statuses_def update_try_def)
  from process_players_error[of strp now all_players Map.empty e m'] pp r
  have "\<exists>before p rest. all_players = before @ p # rest \<and>
       process_players strp now before Map.empty = (Inr (), m') \<and>
       process_player strp now p m' = Inl e" by simp
  then show ?thesis using Inr t by (simp add: m')
qed

theorem update_player_statuses_on_error_witness:
  "fst (update_try (one_page [record_ok, record_no_id]) sample_strptime 0 self_prior) =
     Inl (KeyError ''scorerId'') \<and>
   last_check_time (update_player_statuses (one_page [record_ok, record_no_id])
     sample_strptime 0 self_prior) = Some 0 \<and>
   (\<exists>before p rest. [record_ok, record_no_id] = before @ p # rest \<and>
      process_players sample_strptime 0 before Map.empty =
        (Inr (), player_statuses (update_player_statuses (one_page [record_ok, record_no_id])
            sample_strptime 0 self_prior)) \<and>
      process_player sample_strptime 0 p
        (player_statuses (update_player_statuses (one_page [record_ok, record_no_id])
            sample_strptime 0 self_prior)) = Inl (KeyError ''scorerId''))"
proof -
  have h: "fst (update_try (one_page [record_ok, record_no_id]) sample_strptime 0 self_prior) =
     Inl (KeyError ''scorerId'')"
    by code_simp
  from update_player_statuses_on_error[OF h] h show ?thesis
    by (simp add: fetch_all_players_one_page)
qed

text \<open>
  Claim C2 as stated fails: with the feed down the entry of the previous cycle is gone
  after the call, and with a record that lacks its identifier the map holds the entry of
  the record before it and not the previous cycle's.
\<close>

theorem update_player_statuses_map_not_kept:
  "fst (update_try session_down sample_strptime 0 self_prior) = Inl FetchError \<and>
   player_statuses self_prior ''old'' = Some status_confirmed \<and>
   player_statuses (update_player_statuses session_down sample_strptime 0 self_prior) ''old'' = None \<and>
   fst (update_try (one_page [record_ok, record_no_id]) sample_strptime 0 self_prior) =
     Inl (KeyError ''scorerId'') \<and>
   player_statuses (update_player_statuses (one_page [record_ok, record_no_id])
     sample_strptime 0 self_prior) ''old'' = None \<and>
   player_statuses (update_player_statuses (one_page [record_ok, record_no_id])
     sample_strptime 0 self_prior) ''p1'' \<noteq> None"
  by code_simp


lemma process_players_append:
  "process_players strp now (xs @ ys) m =
     (case process_players strp now xs m of
        (Inl e, m') \<Rightarrow> (Inl e, m')
      | (Inr u, m') \<Rightarrow> process_players strp now ys m')"
proof (induction xs arbitrary: m)
  case Nil
  then show ?case by simp
next
  case (Cons x xs)
  show ?case
  proof (cases "process_player strp now x m")
    case (Inl e)
    then show ?thesis by simp
  next
    case (Inr m1)
    then show ?thesis using Cons.IH[of m1] by simp
  qed
qed


lemma process_players_ok:
  assumes "list_all (\<lambda>q. q ''scorerId'' \<noteq> None) ps"
  shows "fst (process_players strp now ps m) = Inr ()"
  using assms
proof (induction ps arbitrary: m)
  case Nil
  then show ?case by simp
next
  case (Cons q ps)
  then have "q ''scorerId'' \<noteq> None" by simp
  then have "\<not> (\<exists>e. process_player strp now q m = Inl e)"
    by (simp add: process_player_Inl)
  then obtain m1 where m1: "process_player strp now q m = Inr m1"
    by (cases "process_player strp now q m") auto
  have "list_all (\<lambda>q. q ''scorerId'' \<noteq> None) ps"
    using Cons.prems by simp
  then have "fst (process_players strp now ps m1) = Inr ()"
    by (rule Cons.IH)
  then show ?case by (simp add: m1)
qed


lemma process_player_malformed:
  assumes "p ''scorerId'' = Some player_id" and "p ''opponent'' = Some o_str"
    and "length (str_split o_str ''<br/>'') \<noteq> 2"
  shows "process_player strp now p m = Inr (m(player_id \<mapsto>
    \<lparr>is_starting = (if p ''miscDisplayType'' = Some ''10'' then Some True
                     else if p ''miscDisplayType'' = Some ''11'' then Some False else None),
     is_benched = (if p ''miscDisplayType'' = Some ''10'' then Some False
                    else if p ''miscDisplayType'' = Some ''11'' then Some True else None),
     game_time = None, is_locked = False, opponent = None\<rparr>))"
  using assms by (simp add: process_player_def Let_def)


lemma process_player_writes:
  assumes "q ''scorerId'' = Some k"
  shows "\<exists>s. \<forall>m. process_player strp now q m = Inr (m(k \<mapsto> s))"
  using assms by (auto simp add: process_player_def Let_def case_prod_beta)

lemma process_player_Inr:
  assumes "process_player strp now q m = Inr m'"
  shows "\<exists>k s. q ''scorerId'' = Some k \<and> m' = m(k \<mapsto> s)"
proof -
  have "q ''scorerId'' \<noteq> None"
    using assms process_player_Inl[of strp now q m] by (cases "q ''scorerId''") auto
  then obtain k where k: "q ''scorerId'' = Some k" by blast
  from k process_player_writes[where q=q and k=k and strp=strp and now=now] obtain s where
    "\<forall>m. process_player strp now q m = Inr (m(k \<mapsto> s))" by blast
  then have "m' = m(k \<mapsto> s)" using assms by simp
  with k show ?thesis by blast
qed

lemma process_player_alone:
  assumes "process_player strp now q Map.empty = Inr [k \<mapsto> s]"
  shows "q ''scorerId'' = Some k \<and> (\<forall>m. process_player strp now q m = Inr (m(k \<mapsto> s)))"
proof -
  from process_player_Inr[OF assms] obtain k' s' where
    k': "q ''scorerId'' = Some k'" "[k \<mapsto> s] = [k' \<mapsto> s']" by blast
  from k'(2) have "[k \<mapsto> s] k' = [k' \<mapsto> s'] k'" by simp
  then have eq: "k' = k \<and> s' = s" by (simp split: if_splits)
  from k'(1) process_player_writes[where q=q and k=k' and strp=strp and now=now] obtain s2 where
    s2: "\<forall>m. process_player strp now q m = Inr (m(k' \<mapsto> s2))" by blast
  then have "[k \<mapsto> s] = [k' \<mapsto> s2]" using assms by simp
  then have "[k \<mapsto> s] k' = [k' \<mapsto> s2] k'" by simp
  then have "s2 = s" using eq by simp
  then show ?thesis using s2 k'(1) eq by simp
qed

lemma process_players_other_keys:
  assumes "list_all (\<lambda>r. r ''scorerId'' \<noteq> Some k) ys"
  shows "snd (process_players strp now ys m) k = m k"
  using assms
proof (induction ys arbitrary: m)
  case Nil
  then show ?case by simp
next
  case (Cons r ys)
  show ?case
  proof (cases "process_player strp now r m")
    case (Inl e)
    then show ?thesis by simp
  next
    case (Inr m1)
    from process_player_Inr[OF Inr] obtain k' s' where
      k': "r ''scorerId'' = Some k'" "m1 = m(k' \<mapsto> s')" by blast
    have "k' \<noteq> k" using Cons.prems k'(1) by auto
    then have "m1 k = m k" using k'(2) by simp
    moreover have "snd (process_players strp now ys m1) k = m1 k"
      using Cons.IH Cons.prems by simp
    ultimately show ?thesis using Inr by simp
  qed
qed

lemma process_players_dom:
  assumes "list_all (\<lambda>q. q ''scorerId'' \<noteq> None) ps"
  shows "dom (snd (process_players strp now ps m)) =
           dom m \<union> {k. \<exists>q\<in>set ps. q ''scorerId'' = Some k}"
  using assms
proof (induction ps arbitrary: m)
  case Nil
  then show ?case by simp
next
  case (Cons r ps)
  then obtain k where k: "r ''scorerId'' = Some k" by auto
  from k process_player_writes[where q=r and k=k and strp=strp and now=now] obtain s where
    s: "\<forall>m. process_player strp now r m = Inr (m(k \<mapsto> s))" by blast
  have "dom (snd (process_players strp now ps (m(k \<mapsto> s)))) =
           dom (m(k \<mapsto> s)) \<union> {k. \<exists>q\<in>set ps. q ''scorerId'' = Some k}"
    using Cons.IH Cons.prems by simp
  then show ?case using s k by auto
qed

lemma process_players_last_entry:
  assumes ids: "list_all (\<lambda>q. q ''scorerId'' \<noteq> None) xs"
    and q: "\<forall>m. process_player strp now q m = Inr (m(k \<mapsto> s))"
    and later: "list_all (\<lambda>r. r ''scorerId'' \<noteq> Some k) ys"
  shows "snd (process_players strp now (xs @ q # ys) m) k = Some s"
proof -
  obtain r m1 where pb: "process_players strp now xs m = (r, m1)"
    by (cases "process_players strp now xs m")
  have "fst (process_players strp now xs m) = Inr ()"
    using ids by (rule process_players_ok)
  then have r: "r = Inr ()" using pb by simp
  have "process_players strp now (xs @ q # ys) m =
          process_players strp now ys (m1(k \<mapsto> s))"
    using q by (simp add: process_players_append pb r)
  moreover have "snd (process_players strp now ys (m1(k \<mapsto> s))) k = (m1(k \<mapsto> s)) k"
    using later by (rule process_players_other_keys)
  ultimately show ?thesis by simp
qed


text \<open>
  Claim C8. A record whose opponent field does not split into exactly two parts at
  \<^verbatim>\<open><br/>\<close> gets a status entry with no opponent and no game time, and the loop goes
  on with the records after it exactly as after any other record. When the other records
  carry their identifier, the \<^verbatim>\<open>try\<close> block ends without an exception and the status
  map after the refresh is the one built from the empty map by all records in order: its
  keys are the identifiers of the batch, the malformed record's entry is in it (unless a
  later record has the same identifier), and so is, for every record, the entry that
  record yields on its own (unless a later record has the same identifier).
\<close>

theorem malformed_opponent_does_not_abort:
  assumes "p ''scorerId'' = Some player_id" and "p ''opponent'' = Some o_str"
    and "length (str_split o_str ''<br/>'') \<noteq> 2"
  shows "\<exists>st. opponent st = None \<and> game_time st = None \<and>
           (\<forall>m. process_player strp now p m = Inr (m(player_id \<mapsto> st))) \<and>
           (\<forall>before after m.
              process_players strp now (before @ p # after) m =
                (case process_players strp now before m of
                   (Inl e, m') \<Rightarrow> (Inl e, m')
                 | (Inr u, m') \<Rightarrow> process_players strp now after (m'(player_id \<mapsto> st)))) \<and>
           (\<forall>session self before after.
              fetch_all_players session = Inr (before @ p # after) \<and>
              list_all (\<lambda>q. q ''scorerId'' \<noteq> None) (before @ after) \<longrightarrow>
              fst (update_try session strp now self) = Inr () \<and>
              update_player_statuses session strp now self =
                self\<lparr>last_check_time := Some now,
                     player_statuses :=
                       snd (process_players strp now after
                             ((snd (process_players strp now before Map.empty))
                                (player_id \<mapsto> st)))\<rparr> \<and>
              dom (player_statuses (update_player_statuses session strp now self)) =
                {k. \<exists>q\<in>set (before @ p # after). q ''scorerId'' = Some k} \<and>
              (list_all (\<lambda>q. q ''scorerId'' \<noteq> Some player_id) after \<longrightarrow>
                 player_statuses (update_player_statuses session strp now self) player_id =
                   Some st) \<and>
              (\<forall>xs q ys k s.
                 before @ p # after = xs @ q # ys \<and>
                 process_player strp now q Map.empty = Inr [k \<mapsto> s] \<and>
                 list_all (\<lambda>r. r ''scorerId'' \<noteq> Some k) ys \<longrightarrow>
                 player_statuses (update_player_statuses session strp now self) k = Some s))"
proof -
  define st where "st =
    \<lparr>is_starting = (if p ''miscDisplayType'' = Some ''10'' then Some True
                     else if p ''miscDisplayType'' = Some ''11'' then Some False else None),
     is_benched = (if p ''miscDisplayType'' = Some ''10'' then Some False
                    else if p ''miscDisplayType'' = Some ''11'' then Some True else None),
     game_time = None, is_locked = False, opponent = None\<rparr>"
  have one: "process_player strp now p m = Inr (m(player_id \<mapsto> st))" for m
    unfolding st_def by (rule process_player_malformed[OF assms])
  have loop: "process_players strp now (before @ p # after) m =
                (case process_players strp now before m of
                   (Inl e, m') \<Rightarrow> (Inl e, m')
                 | (Inr u, m') \<Rightarrow> process_players strp now after (m'(player_id \<mapsto> st)))"
    for before after m
  proof -
    obtain r m' where pb: "process_players strp now before m = (r, m')"
      by (cases "process_players strp now before m")
    show ?thesis
    proof (cases r)
      case (Inl e)
      then show ?thesis by (simp add: process_players_append pb)
    next
      case (Inr u)
      then show ?thesis by (simp add: process_players_append pb one)
    qed
  qed
  have whole:
    "fst (update_try session strp now self) = Inr () \<and>
     update_player_statuses session strp now self =
       self\<lparr>last_check_time := Some now,
            player_statuses :=
              snd (process_players strp now after
                    ((snd (process_players strp now before Map.empty))
                       (player_id \<mapsto> st)))\<rparr> \<and>
     dom (player_statuses (update_player_statuses session strp now self)) =
       {k. \<exists>q\<in>set (before @ p # after). q ''scorerId'' = Some k} \<and>
     (list_all (\<lambda>q. q ''scorerId'' \<noteq> Some player_id) after \<longrightarrow>
        player_statuses (update_player_statuses session strp now self) player_id = Some st) \<and>
     (\<forall>xs q ys k s.
        before @ p # after = xs @ q # ys \<and>
        process_player strp now q Map.empty = Inr [k \<mapsto> s] \<and>
        list_all (\<lambda>r. r ''scorerId'' \<noteq> Some k) ys \<longrightarrow>
        player_statuses (update_player_statuses session strp now self) k = Some s)"
    if f: "fetch_all_players session = Inr (before @ p # after)"
      and ids: "list_all (\<lambda>q. q ''scorerId'' \<noteq> None) (before @ after)"
    for session self before after
  proof -
    let ?ps = "before @ p # after"
    let ?M = "snd (process_players strp now ?ps Map.empty)"
    have all_ids: "list_all (\<lambda>q. q ''scorerId'' \<noteq> None) ?ps"
      using ids assms(1) by simp
    have ids_before: "list_all (\<lambda>q. q ''scorerId'' \<noteq> None) before"
      using ids by simp
    have ok: "fst (process_players strp now ?ps Map.empty) = Inr ()"
      using all_ids by (rule process_players_ok)
    obtain r m' where pp: "process_players strp now ?ps Map.empty = (r, m')"
      by (cases "process_players strp now ?ps Map.empty")
    have r: "r = Inr ()" using ok pp by simp
    have c1: "fst (update_try session strp now self) = Inr ()"
      using f pp r by (simp add: update_try_def)
    have upd: "update_player_statuses session strp now self =
                 self\<lparr>last_check_time := Some now, player_statuses := ?M\<rparr>"
      using f pp by (simp add: update_player_statuses_def update_try_def)
    have map: "player_statuses (update_player_statuses session strp now self) = ?M"
      by (simp add: upd)
    obtain rb mb where pb: "process_players strp now before Map.empty = (rb, mb)"
      by (cases "process_players strp now before Map.empty")
    have "fst (process_players strp now before Map.empty) = Inr ()"
      using ids_before by (rule process_players_ok)
    then have rb: "rb = Inr ()" using pb by simp
    have "process_players strp now ?ps Map.empty =
            process_players strp now after (mb(player_id \<mapsto> st))"
      by (simp add: loop pb rb)
    then have M: "?M = snd (process_players strp now after
                    ((snd (process_players strp now before Map.empty))(player_id \<mapsto> st)))"
      by (simp add: pb)
    have c2: "update_player_statuses session strp now self =
       self\<lparr>last_check_time := Some now,
            player_statuses :=
              snd (process_players strp now after
                    ((snd (process_players strp now before Map.empty))
                       (player_id \<mapsto> st)))\<rparr>"
      using upd M by (simp only:)
    have "dom ?M = dom (Map.empty :: string \<rightharpoonup> PlayerStatus) \<union>
                     {k. \<exists>q\<in>set ?ps. q ''scorerId'' = Some k}"
      using all_ids by (rule process_players_dom)
    then have c3: "dom (player_statuses (update_player_statuses session strp now self)) =
       {k. \<exists>q\<in>set ?ps. q ''scorerId'' = Some k}"
      by (simp only: map dom_empty Un_empty_left)
    have last: "?M k = Some s"
      if split: "?ps = xs @ q # ys"
        and q: "\<forall>m. process_player strp now q m = Inr (m(k \<mapsto> s))"
        and later: "list_all (\<lambda>r. r ''scorerId'' \<noteq> Some k) ys"
      for xs q ys k s
    proof -
      have "list_all (\<lambda>q. q ''scorerId'' \<noteq> None) (xs @ q # ys)"
        using all_ids split by (simp only:)
      then have "list_all (\<lambda>q. q ''scorerId'' \<noteq> None) xs" by simp
      then have "snd (process_players strp now (xs @ q # ys) Map.empty) k = Some s"
        using q later by (rule process_players_last_entry)
      then show ?thesis using split by (simp only:)
    qed
    have c4: "list_all (\<lambda>q. q ''scorerId'' \<noteq> Some player_id) after \<longrightarrow>
        player_statuses (update_player_statuses session strp now self) player_id = Some st"
    proof
      assume a: "list_all (\<lambda>q. q ''scorerId'' \<noteq> Some player_id) after"
      have "\<forall>m. process_player strp now p m = Inr (m(player_id \<mapsto> st))"
        using one by (rule allI)
      then have "?M player_id = Some st"
        using a by (intro last[of before p after]) simp_all
      then show "player_statuses (update_player_statuses session strp now self) player_id =
                   Some st"
        by (simp only: map)
    qed
    have c5: "\<forall>xs q ys k s.
        before @ p # after = xs @ q # ys \<and>
        process_player strp now q Map.empty = Inr [k \<mapsto> s] \<and>
        list_all (\<lambda>r. r ''scorerId'' \<noteq> Some k) ys \<longrightarrow>
        player_statuses (update_player_statuses session strp now self) k = Some s"
    proof (intro allI impI)
      fix xs q ys k s
      assume a: "before @ p # after = xs @ q # ys \<and>
        process_player strp now q Map.empty = Inr [k \<mapsto> s] \<and>
        list_all (\<lambda>r. r ''scorerId'' \<noteq> Some k) ys"
      have a1: "before @ p # after = xs @ q # ys"
        using a by (rule conjunct1)
      have a2: "process_player strp now q Map.empty = Inr [k \<mapsto> s]"
        using a by (rule conjunct2[THEN conjunct1])
      have a3: "list_all (\<lambda>r. r ''scorerId'' \<noteq> Some k) ys"
        using a by (rule conjunct2[THEN conjunct2])
      have "\<forall>m. process_player strp now q m = Inr (m(k \<mapsto> s))"
        using process_player_alone[OF a2] by (rule conjunct2)
      then have "?M k = Some s" using a1 a3 by (intro last[of xs q ys]) simp_all
      then show "player_statuses (update_player_statuses session strp now self) k = Some s"
        by (simp only: map)
    qed
    show ?thesis
      by (intro conjI c1 c2 c3 c4 c5)
  qed
  have a: "opponent st = None" and b: "game_time st = None" by (simp_all add: st_def)
  have c: "\<forall>m. process_player strp now p m = Inr (m(player_id \<mapsto> st))"
    using one by (rule allI)
  have d: "\<forall>before after m.
              process_players strp now (before @ p # after) m =
                (case process_players strp now before m of
                   (Inl e, m') \<Rightarrow> (Inl e, m')
                 | (Inr u, m') \<Rightarrow> process_players strp now after (m'(player_id \<mapsto> st)))"
    using loop by (intro allI)
  have e: "\<forall>session self before after.
              fetch_all_players session = Inr (before @ p # after) \<and>
              list_all (\<lambda>q. q ''scorerId'' \<noteq> None) (before @ after) \<longrightarrow>
              fst (update_try session strp now self) = Inr () \<and>
              update_player_statuses session strp now self =
                self\<lparr>last_check_time := Some now,
                     player_statuses :=
                       snd (process_players strp now after
                             ((snd (process_players strp now before Map.empty))
                                (player_id \<mapsto> st)))\<rparr> \<and>
              dom (player_statuses (update_player_statuses session strp now self)) =
                {k. \<exists>q\<in>set (before @ p # after). q ''scorerId'' = Some k} \<and>
              (list_all (\<lambda>q. q ''scorerId'' \<noteq> Some player_id) after \<longrightarrow>
                 player_statuses (update_player_statuses session strp now self) player_id =
                   Some st) \<and>
              (\<forall>xs q ys k s.
                 before @ p # after = xs @ q # ys \<and>
                 process_player strp now q Map.empty = Inr [k \<mapsto> s] \<and>
                 list_all (\<lambda>r. r ''scorerId'' \<noteq> Some k) ys \<longrightarrow>
                 player_statuses (update_player_statuses session strp now self) k = Some s)"
  proof (intro allI impI)
    fix session self before after
    assume h: "fetch_all_players session = Inr (before @ p # after) \<and>
              list_all (\<lambda>q. q ''scorerId'' \<noteq> None) (before @ after)"
    show "fst (update_try session strp now self) = Inr () \<and>
              update_player_statuses session strp now self =
                self\<lparr>last_check_time := Some now,
                     player_statuses :=
                       snd (process_players strp now after
                             ((snd (process_players strp now before Map.empty))
                                (player_id \<mapsto> st)))\<rparr> \<and>
              dom (player_statuses (update_player_statuses session strp now self)) =
                {k. \<exists>q\<in>set (before @ p # after). q ''scorerId'' = Some k} \<and>
              (list_all (\<lambda>q. q ''scorerId'' \<noteq> Some player_id) after \<longrightarrow>
                 player_statuses (update_player_statuses session strp now self) player_id =
                   Some st) \<and>
              (\<forall>xs q ys k s.
                 before @ p # after = xs @ q # ys \<and>
                 process_player strp now q Map.empty = Inr [k \<mapsto> s] \<and>
                 list_all (\<lambda>r. r ''scorerId'' \<noteq> Some k) ys \<longrightarrow>
                 player_statuses (update_player_statuses session strp now self) k = Some s)"
      by (rule whole[OF conjunct1[OF h] conjunct2[OF h]])
  qed
  show ?thesis
    by (rule exI[of _ st]) (intro conjI a b c d e)
qed


theorem malformed_opponent_does_not_abort_witness:
  "record_bad_opponent ''scorerId'' = Some ''p2'' \<and>
   record_bad_opponent ''opponent'' = Some ''TBD'' \<and>
   length (str_split ''TBD'' ''<br/>'') \<noteq> 2 \<and>
   fetch_all_players (one_page [record_ok, record_bad_opponent, record_plain]) =
     Inr ([record_ok] @ record_bad_opponent # [record_plain]) \<and>
   list_all (\<lambda>q. q ''scorerId'' \<noteq> None) ([record_ok] @ [record_plain]) \<and>
   fst (update_try (one_page [record_ok, record_bad_opponent, record_plain])
          sample_strptime 0 self_prior) = Inr () \<and>
   (\<exists>st. opponent st = None \<and> game_time st = None \<and>
      process_player sample_strptime 0 record_bad_opponent Map.empty = Inr [''p2'' \<mapsto> st] \<and>
      player_statuses (update_player_statuses
          (one_page [record_ok, record_bad_opponent, record_plain])
          sample_strptime 0 self_prior) ''p2'' = Some st) \<and>
   dom (player_statuses (update_player_statuses
          (one_page [record_ok, record_bad_opponent, record_plain])
          sample_strptime 0 self_prior)) = {''p1'', ''p2'', ''p3''} \<and>
   map_option opponent (player_statuses (update_player_statuses
          (one_page [record_ok, record_bad_opponent, record_plain])
          sample_strptime 0 self_prior) ''p1'') = Some (Some ''vs MUN'') \<and>
   map_option game_time (player_statuses (update_player_statuses
          (one_page [record_ok, record_bad_opponent, record_plain])
          sample_strptime 0 self_prior) ''p1'') = Some (Some (hours 16)) \<and>
   map_option is_starting (player_statuses (update_player_statuses
          (one_page [record_ok, record_bad_opponent, record_plain])
          sample_strptime 0 self_prior) ''p3'') = Some None \<and>
   player_statuses (update_player_statuses
          (one_page [record_ok, record_bad_opponent, record_plain])
          sample_strptime 0 self_prior) ''old'' = None"
proof -
  let ?S = "one_page [record_ok, record_bad_opponent, record_plain]"
  let ?after = "update_player_statuses ?S sample_strptime 0 self_prior"
  have h1: "record_bad_opponent ''scorerId'' = Some ''p2''"
    by (simp add: record_bad_opponent_def)
  have h2: "record_bad_opponent ''opponent'' = Some ''TBD''"
    by (simp add: record_bad_opponent_def)
  have h3: "length (str_split ''TBD'' ''<br/>'') \<noteq> 2"
    by code_simp
  have f: "fetch_all_players ?S = Inr ([record_ok] @ record_bad_opponent # [record_plain])"
    by (simp add: fetch_all_players_one_page)
  have ids: "list_all (\<lambda>q. q ''scorerId'' \<noteq> None) ([record_ok] @ [record_plain])"
    by (simp add: record_ok_def record_plain_def)
  have later: "list_all (\<lambda>q. q ''scorerId'' \<noteq> Some ''p2'') [record_plain]"
    by (simp add: record_plain_def)
  from malformed_opponent_does_not_abort[OF h1 h2 h3, of sample_strptime 0]
  obtain st where st:
    "opponent st = None \<and> game_time st = None \<and>
     (\<forall>m. process_player sample_strptime 0 record_bad_opponent m = Inr (m(''p2'' \<mapsto> st))) \<and>
     (\<forall>before after m.
        process_players sample_strptime 0 (before @ record_bad_opponent # after) m =
          (case process_players sample_strptime 0 before m of
             (Inl e, m') \<Rightarrow> (Inl e, m')
           | (Inr u, m') \<Rightarrow> process_players sample_strptime 0 after (m'(''p2'' \<mapsto> st)))) \<and>
     (\<forall>session self before after.
        fetch_all_players session = Inr (before @ record_bad_opponent # after) \<and>
        list_all (\<lambda>q. q ''scorerId'' \<noteq> None) (before @ after) \<longrightarrow>
        fst (update_try session sample_strptime 0 self) = Inr () \<and>
        update_player_statuses session sample_strptime 0 self =
          self\<lparr>last_check_time := Some 0,
               player_statuses :=
                 snd (process_players sample_strptime 0 after
                       ((snd (process_players sample_strptime 0 before Map.empty))
                          (''p2'' \<mapsto> st)))\<rparr> \<and>
        dom (player_statuses (update_player_statuses session sample_strptime 0 self)) =
          {k. \<exists>q\<in>set (before @ record_bad_opponent # after). q ''scorerId'' = Some k} \<and>
        (list_all (\<lambda>q. q ''scorerId'' \<noteq> Some ''p2'') after \<longrightarrow>
           player_statuses (update_player_statuses session sample_strptime 0 self) ''p2'' =
             Some st) \<and>
        (\<forall>xs q ys k s.
           before @ record_bad_opponent # after = xs @ q # ys \<and>
           process_player sample_strptime 0 q Map.empty = Inr [k \<mapsto> s] \<and>
           list_all (\<lambda>r. r ''scorerId'' \<noteq> Some k) ys \<longrightarrow>
           player_statuses (update_player_statuses session sample_strptime 0 self) k = Some s))" ..
  have a: "opponent st = None" using st by (rule conjunct1)
  have b: "game_time st = None" using st by (rule conjunct2[THEN conjunct1])
  have c: "\<forall>m. process_player sample_strptime 0 record_bad_opponent m = Inr (m(''p2'' \<mapsto> st))"
    using st by (rule conjunct2[THEN conjunct2, THEN conjunct1])
  note e = st[THEN conjunct2, THEN conjunct2, THEN conjunct2, THEN conjunct2]
  note inst = e[rule_format, OF conjI[OF f ids], of self_prior]
  have whole: "fst (update_try ?S sample_strptime 0 self_prior) = Inr ()"
    using inst by (rule conjunct1)
  have doms: "dom (player_statuses ?after) =
      {k. \<exists>q\<in>set ([record_ok] @ record_bad_opponent # [record_plain]). q ''scorerId'' = Some k}"
    using inst by (rule conjunct2[THEN conjunct2, THEN conjunct1])
  have p2: "list_all (\<lambda>q. q ''scorerId'' \<noteq> Some ''p2'') [record_plain] \<longrightarrow>
      player_statuses ?after ''p2'' = Some st"
    using inst by (rule conjunct2[THEN conjunct2, THEN conjunct2, THEN conjunct1])
  have entry: "player_statuses ?after ''p2'' = Some st"
    using p2 later by (rule mp)
  have one: "process_player sample_strptime 0 record_bad_opponent Map.empty = Inr [''p2'' \<mapsto> st]"
    by (rule c[rule_format])
  have ex: "\<exists>st. opponent st = None \<and> game_time st = None \<and>
      process_player sample_strptime 0 record_bad_opponent Map.empty = Inr [''p2'' \<mapsto> st] \<and>
      player_statuses ?after ''p2'' = Some st"
    by (rule exI[of _ st]) (intro conjI a b one entry)
  have "{k. \<exists>q\<in>set ([record_ok] @ record_bad_opponent # [record_plain]). q ''scorerId'' = Some k} =
        {''p1'', ''p2'', ''p3''}"
    by (auto simp add: record_ok_def record_bad_opponent_def record_plain_def)
  then have d: "dom (player_statuses ?after) = {''p1'', ''p2'', ''p3''}"
    using doms by (simp only:)
  have v1: "map_option opponent (player_statuses ?after ''p1'') = Some (Some ''vs MUN'')"
    by code_simp
  have v2: "map_option game_time (player_statuses ?after ''p1'') = Some (Some (hours 16))"
    by code_simp
  have v3: "map_option is_starting (player_statuses ?after ''p3'') = Some None"
    by code_simp
  have v4: "player_statuses ?after ''old'' = None"
    by code_simp
  show ?thesis
    by (intro conjI h1 h2 h3 f ids whole ex d v1 v2 v3 v4)
qed

end
